theory Spec2Isabelle
  imports Main
begin

section \<open>Values, errors and configuration dictionaries\<close>

text \<open>
  The sticker cog (\<^verbatim>\<open>cogs/stickers.py\<close>) walks a two-level directory tree and registers
  one command per sticker and one per category. Its configuration records are Python
  dictionaries whose values are either decoded JSON or \<^verbatim>\<open>pathlib.Path\<close> objects.

  Strings are lists of code points below 256, and JSON numbers are integers here.
\<close>

datatype json =
    JNull
  | JBool bool
  | JNum int
  | JStr string
  | JArr "json list"
  | JObj "(string \<times> json) list"

type_synonym path = "string list"

datatype pyval =
    Json json
  | PathRef path
  | PyList "pyval list"

abbreviation PyNone :: pyval where
  "PyNone \<equiv> Json JNull"

abbreviation PyStr :: "string \<Rightarrow> pyval" where
  "PyStr s \<equiv> Json (JStr s)"

datatype error =
    OSError
  | ValueError
  | TypeError
  | AttributeError
  | IndexError
  | KeyError
  | TransportError
  | NotModelled

text \<open>
  The keys of a configuration dictionary. The code writes and reads string keys only;
  a descriptor can add a key that is a number, a boolean or \<^verbatim>\<open>null\<close>. A boolean key is
  the integer it equals, as Python hashes and compares it.
\<close>

datatype key = KStr string | KInt int | KNone

type_synonym config = "key \<rightharpoonup> pyval"

definition bind_err :: "error + 'a \<Rightarrow> ('a \<Rightarrow> error + 'b) \<Rightarrow> error + 'b" where
  "bind_err r f = (case r of Inl e \<Rightarrow> Inl e | Inr x \<Rightarrow> f x)"

text \<open>\<^verbatim>\<open>config[k]\<close>: a missing key raises KeyError.\<close>

definition getitem :: "config \<Rightarrow> string \<Rightarrow> error + pyval" where
  "getitem cfg k = (case cfg (KStr k) of None \<Rightarrow> Inl KeyError | Some v \<Rightarrow> Inr v)"

text \<open>
  \<^verbatim>\<open>config.update(doc)\<close>, where \<^verbatim>\<open>doc\<close> is whatever \<^verbatim>\<open>json.load\<close> returned.

  A decoded object is a \<^verbatim>\<open>dict\<close>: every key of the document replaces the value the
  dictionary had; the pairs are in document order, so a repeated key keeps its last
  value, as \<^verbatim>\<open>json.load\<close> does.
\<close>

definition update_object :: "config \<Rightarrow> (string \<times> json) list \<Rightarrow> config" where
  "update_object cfg kvs = fold (\<lambda>(k, v) c. c(KStr k \<mapsto> Json v)) kvs cfg"

text \<open>
  Any other value is iterated, and each element must be a sequence of two items, the
  key and the value. A list, a string (its characters) and a dict (its keys, in the
  order of first insertion) are sequences; a number, a boolean and \<^verbatim>\<open>null\<close> are not, and
  make \<^verbatim>\<open>update\<close> raise TypeError. A sequence of another length raises ValueError. The
  key must be hashable: a list or a dict as key raises TypeError.
\<close>

definition object_keys :: "(string \<times> json) list \<Rightarrow> string list" where
  "object_keys kvs = rev (remdups (rev (map fst kvs)))"

fun as_sequence :: "json \<Rightarrow> json list option" where
  "as_sequence (JArr xs) = Some xs"
| "as_sequence (JStr s) = Some (map (\<lambda>c. JStr [c]) s)"
| "as_sequence (JObj kvs) = Some (map JStr (object_keys kvs))"
| "as_sequence v = None"

fun hash_key :: "json \<Rightarrow> key option" where
  "hash_key (JStr s) = Some (KStr s)"
| "hash_key (JNum n) = Some (KInt n)"
| "hash_key (JBool b) = Some (KInt (if b then 1 else 0))"
| "hash_key JNull = Some KNone"
| "hash_key (JArr xs) = None"
| "hash_key (JObj kvs) = None"

definition update_pair :: "config \<Rightarrow> json \<Rightarrow> error + config" where
  "update_pair cfg x =
     (case as_sequence x of
        None \<Rightarrow> Inl TypeError
      | Some items \<Rightarrow>
          (case items of
             [k, v] \<Rightarrow>
               (case hash_key k of
                  None \<Rightarrow> Inl TypeError
                | Some k' \<Rightarrow> Inr (cfg(k' \<mapsto> Json v)))
           | _ \<Rightarrow> Inl ValueError))"

fun update_pairs :: "config \<Rightarrow> json list \<Rightarrow> error + config" where
  "update_pairs cfg [] = Inr cfg"
| "update_pairs cfg (x # xs) =
     (case update_pair cfg x of
        Inl err \<Rightarrow> Inl err
      | Inr cfg' \<Rightarrow> update_pairs cfg' xs)"

definition dict_update :: "config \<Rightarrow> json \<Rightarrow> error + config" where
  "dict_update cfg doc =
     (case doc of
        JObj kvs \<Rightarrow> Inr (update_object cfg kvs)
      | _ \<Rightarrow>
          (case as_sequence doc of
             None \<Rightarrow> Inl TypeError
           | Some items \<Rightarrow> update_pairs cfg items))"

section \<open>The Python runtime and the filesystem snapshot\<close>

text \<open>
  Three things the code takes from the interpreter and not from its own text:
  \<^verbatim>\<open>str.capitalize\<close>, the text an f-string gives a value that is not a \<^verbatim>\<open>str\<close>, and the
  order in which the set \<^verbatim>\<open>IMAGE_SUFFIXES\<close> is iterated.
\<close>

record runtime =
  capitalize :: "string \<Rightarrow> string"
  str_of :: "pyval \<Rightarrow> string"
  suffix_iter :: "string list"

definition IMAGE_SUFFIXES :: "string set" where
  "IMAGE_SUFFIXES = {''.gif'', ''.jpeg'', ''.jpg'', ''.png'', ''.mp4'', ''.webm''}"

definition IMAGE_AND_JSON_SUFFIXES :: "string set" where
  "IMAGE_AND_JSON_SUFFIXES = insert ''.json'' IMAGE_SUFFIXES"

text \<open>An iteration order of the set: every member once.\<close>

definition iterates :: "string list \<Rightarrow> string set \<Rightarrow> bool" where
  "iterates xs S = (distinct xs \<and> set xs = S)"

text \<open>
  What opening a descriptor and \<^verbatim>\<open>json.load\<close> give: \<^verbatim>\<open>open\<close> or the read raises an
  \<^verbatim>\<open>IOError\<close>; \<^verbatim>\<open>json.load\<close> raises (a \<^verbatim>\<open>ValueError\<close>: the content does not parse); or
  the content is decoded, to any JSON value.
\<close>

datatype read_result =
    Unreadable
  | Malformed
  | Decoded json

record item_entry =
  i_name :: string
  i_stem :: string
  i_suffix :: string
  i_is_file :: bool

record root_entry =
  r_name :: string
  r_stem :: string
  r_is_dir :: bool
  r_listing :: "item_entry list"

text \<open>
  The snapshot as the walk observes it: \<^verbatim>\<open>iterdir\<close> of the root (each directory with its
  own listing, in the order the platform yields them), \<^verbatim>\<open>exists\<close> for a name in the root,
  and the result of opening and decoding a descriptor path.
\<close>

record snapshot =
  iterdir_root :: "root_entry list"
  exists_root :: "string \<Rightarrow> bool"
  open_json :: "path \<Rightarrow> read_result"

definition root :: string where
  "root = ''stickers''"

section \<open>Name derivation\<close>

fun split_on :: "char \<Rightarrow> string \<Rightarrow> string \<Rightarrow> string list" where
  "split_on sep acc [] = [rev acc]"
| "split_on sep acc (c # cs) =
     (if c = sep then rev acc # split_on sep [] cs else split_on sep (c # acc) cs)"

fun join :: "string \<Rightarrow> string list \<Rightarrow> string" where
  "join sep [] = []"
| "join sep [x] = x"
| "join sep (x # y # ys) = x @ sep @ join sep (y # ys)"

definition snake_to_camel :: "runtime \<Rightarrow> string \<Rightarrow> string" where
  "snake_to_camel rt nm = concat (map (capitalize rt) (split_on (CHR ''_'') [] nm))"

definition snake_to_title :: "runtime \<Rightarrow> string \<Rightarrow> string" where
  "snake_to_title rt nm = join '' '' (map (capitalize rt) (split_on (CHR ''_'') [] nm))"

text \<open>A value inside an f-string: a \<^verbatim>\<open>str\<close> is itself, anything else is what the runtime prints.\<close>

definition format_value :: "runtime \<Rightarrow> pyval \<Rightarrow> string" where
  "format_value rt v = (case v of Json (JStr s) \<Rightarrow> s | _ \<Rightarrow> str_of rt v)"

section \<open>Collecting the stickers of a category\<close>

type_synonym sticker_dict = "(string \<times> config) list"

definition sticker_defaults :: "runtime \<Rightarrow> pyval \<Rightarrow> string \<Rightarrow> config" where
  "sticker_defaults rt prefix stem =
     [KStr ''hidden'' \<mapsto> Json (JBool True),
      KStr ''name'' \<mapsto> PyStr (format_value rt prefix @ snake_to_camel rt stem),
      KStr ''aliases'' \<mapsto> Json (JArr []),
      KStr ''message'' \<mapsto> PyStr [],
      KStr ''file'' \<mapsto> PyNone]"

text \<open>
  The try block around a descriptor, in \<^verbatim>\<open>_walk_root\<close> and in \<^verbatim>\<open>_walk_category\<close>
  alike: the configuration is updated with the decoded document, an \<^verbatim>\<open>IOError\<close> is
  caught and ignored, and nothing else is caught: neither the \<^verbatim>\<open>ValueError\<close> of
  \<^verbatim>\<open>json.load\<close> nor an error of \<^verbatim>\<open>update\<close>.
\<close>

definition load_descriptor :: "snapshot \<Rightarrow> path \<Rightarrow> config \<Rightarrow> error + config" where
  "load_descriptor fs p cfg =
     (case open_json fs p of
        Unreadable \<Rightarrow> Inr cfg
      | Malformed \<Rightarrow> Inl ValueError
      | Decoded doc \<Rightarrow> dict_update cfg doc)"

text \<open>
  \<^verbatim>\<open>sticker_dict\<close> keeps insertion order: storing under a new key appends, storing under
  a known key changes the record where it stands.
\<close>

fun store :: "string \<Rightarrow> config \<Rightarrow> sticker_dict \<Rightarrow> sticker_dict" where
  "store k c [] = [(k, c)]"
| "store k c ((k', c') # ps) = (if k' = k then (k, c) # ps else (k', c') # store k c ps)"

text \<open>
  One iteration of the first loop of \<^verbatim>\<open>_walk_category\<close>. The record of the stem is the
  one stored already, or the defaults on the first observation of the stem; a media file
  sets its \<^verbatim>\<open>file\<close>, a descriptor updates it.
\<close>

definition collect_entry ::
  "runtime \<Rightarrow> snapshot \<Rightarrow> string \<Rightarrow> pyval \<Rightarrow> item_entry \<Rightarrow> sticker_dict \<Rightarrow> error + sticker_dict" where
  "collect_entry rt fs cat prefix e d =
     (if i_is_file e \<and> i_suffix e \<in> IMAGE_AND_JSON_SUFFIXES then
        let key = i_stem e;
            sticker_config = (case map_of d key of
                                None \<Rightarrow> sticker_defaults rt prefix (i_stem e)
                              | Some c \<Rightarrow> c)
        in if i_suffix e \<in> IMAGE_SUFFIXES
           then Inr (store key (sticker_config(KStr ''file'' \<mapsto> PathRef [root, cat, i_name e])) d)
           else (case load_descriptor fs [root, cat, i_stem e @ ''.json''] sticker_config of
                   Inl err \<Rightarrow> Inl err
                 | Inr c \<Rightarrow> Inr (store key c d))
      else Inr d)"

fun collect ::
  "runtime \<Rightarrow> snapshot \<Rightarrow> string \<Rightarrow> pyval \<Rightarrow> item_entry list \<Rightarrow> sticker_dict \<Rightarrow> error + sticker_dict" where
  "collect rt fs cat prefix [] d = Inr d"
| "collect rt fs cat prefix (e # es) d =
     (case collect_entry rt fs cat prefix e d of
        Inl err \<Rightarrow> Inl err
      | Inr d' \<Rightarrow> collect rt fs cat prefix es d')"

section \<open>Commands and their registration\<close>

text \<open>
  What \<^verbatim>\<open>_sticker_command\<close> and \<^verbatim>\<open>_category_command\<close> read from a configuration when
  they build a command: the values the callback closes over and the arguments given to
  \<^verbatim>\<open>commands.Command\<close> (the help text apart).
\<close>

record sticker_cmd =
  s_name :: pyval
  s_file :: pyval
  s_aliases :: pyval
  s_message :: pyval
  s_hidden :: pyval

record category_cmd =
  c_hidden :: pyval
  c_name :: pyval
  c_file :: pyval
  c_message :: pyval
  c_sticker_names :: "pyval list"
  c_formatted :: string

datatype command =
    ItemAction sticker_cmd
  | CategoryAction category_cmd

text \<open>
  The cog's state: the calls \<^verbatim>\<open>self.bot.add_command(cmd)\<close> made so far, in order, then
  \<^verbatim>\<open>self.category_names\<close> and the assignments made to \<^verbatim>\<open>self.category_sticker_names\<close>.
\<close>

record cog_state =
  commands :: "command list"
  category_names :: "pyval list"
  category_sticker_names :: "(pyval \<times> pyval list) list"

text \<open>
  Modelled from the spec: \<^verbatim>\<open>commands.Command\<close> and \<^verbatim>\<open>bot.add_command\<close> belong to the
  host framework, which is not part of the source. Following the spec's Registry, a
  command is built from whatever values the configuration holds and a registration
  always succeeds; the state keeps the calls in the order they are made.
\<close>

definition add_command :: "command \<Rightarrow> cog_state \<Rightarrow> cog_state" where
  "add_command cmd st = st\<lparr>commands := commands st @ [cmd]\<rparr>"

definition sticker_command :: "config \<Rightarrow> error + sticker_cmd" where
  "sticker_command cfg =
     bind_err (getitem cfg ''name'') (\<lambda>nm.
     bind_err (getitem cfg ''file'') (\<lambda>fl.
     bind_err (getitem cfg ''aliases'') (\<lambda>al.
     bind_err (getitem cfg ''message'') (\<lambda>msg.
     bind_err (getitem cfg ''hidden'') (\<lambda>hid.
       Inr \<lparr>s_name = nm, s_file = fl, s_aliases = al, s_message = msg, s_hidden = hid\<rparr>)))))"

text \<open>The second loop of \<^verbatim>\<open>_walk_category\<close>, over \<^verbatim>\<open>sticker_dict.values()\<close>.\<close>

fun add_stickers :: "config list \<Rightarrow> cog_state \<Rightarrow> pyval list \<Rightarrow> cog_state \<times> (error + pyval list)" where
  "add_stickers [] st names = (st, Inr names)"
| "add_stickers (cfg # cfgs) st names =
     (case getitem cfg ''name'' of
        Inl err \<Rightarrow> (st, Inl err)
      | Inr nm \<Rightarrow>
          (case sticker_command cfg of
             Inl err \<Rightarrow> (st, Inl err)
           | Inr cmd \<Rightarrow> add_stickers cfgs (add_command (ItemAction cmd) st) (names @ [nm])))"

definition walk_category ::
  "runtime \<Rightarrow> snapshot \<Rightarrow> root_entry \<Rightarrow> pyval \<Rightarrow> cog_state \<Rightarrow> cog_state \<times> (error + pyval list)" where
  "walk_category rt fs cat prefix st =
     (case collect rt fs (r_name cat) prefix (r_listing cat) [] of
        Inl err \<Rightarrow> (st, Inl err)
      | Inr d \<Rightarrow> add_stickers (map snd d) st [])"

section \<open>The category listing message\<close>

text \<open>
  \<^verbatim>\<open>str.format\<close> with one positional argument, for the fragment of the format language
  made of literal text, the doubled braces and the automatic field \<^verbatim>\<open>{}\<close>: the first
  \<^verbatim>\<open>{}\<close> is the argument, a second one raises IndexError, a lone brace raises ValueError.
  A field with an index, a name, a conversion or a format specification is outside
  the fragment (\<open>NotModelled\<close>).
\<close>

fun py_format :: "nat \<Rightarrow> string \<Rightarrow> string \<Rightarrow> error + string" where
  "py_format n arg [] = Inr []"
| "py_format n arg [c] =
     (if c = CHR ''{'' \<or> c = CHR ''}'' then Inl ValueError else Inr [c])"
| "py_format n arg (c # d # cs) =
     (if c = CHR ''{'' then
        (if d = CHR ''{'' then map_sum id ((#) c) (py_format n arg cs)
         else if d = CHR ''}'' then
           (if n = 0 then map_sum id ((@) arg) (py_format (Suc n) arg cs) else Inl IndexError)
         else Inl NotModelled)
      else if c = CHR ''}'' then
        (if d = CHR ''}'' then map_sum id ((#) c) (py_format n arg cs) else Inl ValueError)
      else map_sum id ((#) c) (py_format n arg (d # cs)))"

text \<open>\<^verbatim>\<open>str.isspace\<close> on one code point below 256, and \<^verbatim>\<open>str.strip()\<close>.\<close>

definition py_isspace :: "char \<Rightarrow> bool" where
  "py_isspace c = (of_char c \<in> {9, 10, 11, 12, 13, 28, 29, 30, 31, 32, 133, 160 :: nat})"

definition strip :: "string \<Rightarrow> string" where
  "strip s = rev (dropWhile py_isspace (rev (dropWhile py_isspace s)))"

text \<open>\<^verbatim>\<open>" ".join(names)\<close> raises TypeError unless every name is a \<^verbatim>\<open>str\<close>.\<close>

fun str_items :: "pyval list \<Rightarrow> error + string list" where
  "str_items [] = Inr []"
| "str_items (v # vs) =
     (case v of
        Json (JStr s) \<Rightarrow> map_sum id ((#) s) (str_items vs)
      | _ \<Rightarrow> Inl TypeError)"

text \<open>
  \<^verbatim>\<open>message.format(" ".join(sticker_names)).strip()\<close>: the attribute \<^verbatim>\<open>format\<close> is looked
  up first (only a \<^verbatim>\<open>str\<close> has it), then the argument is evaluated.
\<close>

definition format_listing :: "pyval \<Rightarrow> pyval list \<Rightarrow> error + string" where
  "format_listing msg names =
     (case msg of
        Json (JStr template) \<Rightarrow>
          bind_err (str_items names) (\<lambda>ss.
          bind_err (py_format 0 (join '' '' ss) template) (\<lambda>text. Inr (strip text)))
      | _ \<Rightarrow> Inl AttributeError)"

text \<open>
  \<^verbatim>\<open>_category_command\<close>. \<^verbatim>\<open>config['sticker_names']\<close> is the list \<^verbatim>\<open>_walk_root\<close> stored
  just before the call; any other value there is outside the model.
\<close>

definition category_command :: "config \<Rightarrow> error + category_cmd" where
  "category_command cfg =
     bind_err (getitem cfg ''hidden'') (\<lambda>hid.
     bind_err (getitem cfg ''name'') (\<lambda>nm.
     bind_err (getitem cfg ''file'') (\<lambda>fl.
     bind_err (getitem cfg ''message'') (\<lambda>msg.
     bind_err (getitem cfg ''sticker_names'') (\<lambda>sn.
       (case sn of
          PyList names \<Rightarrow>
            bind_err (format_listing msg names) (\<lambda>text.
              Inr \<lparr>c_hidden = hid, c_name = nm, c_file = fl, c_message = msg,
                   c_sticker_names = names, c_formatted = text\<rparr>)
        | _ \<Rightarrow> Inl NotModelled))))))"

section \<open>Walking the root\<close>

definition category_defaults :: "runtime \<Rightarrow> string \<Rightarrow> config" where
  "category_defaults rt stem =
     [KStr ''hidden'' \<mapsto> Json (JBool True),
      KStr ''name'' \<mapsto> PyStr (snake_to_camel rt stem),
      KStr ''prefix'' \<mapsto> PyStr [],
      KStr ''message'' \<mapsto> PyStr (snake_to_title rt stem @ '' stickers'' @ [CHR 0x0A] @ ''```{}```''),
      KStr ''file'' \<mapsto> PyNone]"

text \<open>
  The thumbnail loop: the suffixes in the order the runtime iterates the set, stopping
  at the first \<^verbatim>\<open>root / (stem + ext)\<close> that exists.
\<close>

fun find_thumbnail :: "snapshot \<Rightarrow> string \<Rightarrow> string list \<Rightarrow> config \<Rightarrow> config" where
  "find_thumbnail fs stem [] cfg = cfg"
| "find_thumbnail fs stem (ext # exts) cfg =
     (if exists_root fs (stem @ ext) then cfg(KStr ''file'' \<mapsto> PathRef [root, stem @ ext])
      else find_thumbnail fs stem exts cfg)"

text \<open>A dictionary key must be hashable: a list or a dict is not.\<close>

fun hashable :: "pyval \<Rightarrow> bool" where
  "hashable (Json (JArr xs)) = False"
| "hashable (Json (JObj kvs)) = False"
| "hashable (PyList vs) = False"
| "hashable v = True"

text \<open>The body of the loop of \<^verbatim>\<open>_walk_root\<close> for one directory.\<close>

definition walk_directory :: "runtime \<Rightarrow> snapshot \<Rightarrow> root_entry \<Rightarrow> cog_state \<Rightarrow> cog_state \<times> error option" where
  "walk_directory rt fs cat st =
     (let cfg1 = find_thumbnail fs (r_stem cat) (suffix_iter rt) (category_defaults rt (r_stem cat))
      in case load_descriptor fs [root, r_stem cat @ ''.json''] cfg1 of
           Inl err \<Rightarrow> (st, Some err)
         | Inr cfg2 \<Rightarrow>
             (case getitem cfg2 ''name'' of
                Inl err \<Rightarrow> (st, Some err)
              | Inr category_name \<Rightarrow>
                  (let st1 = st\<lparr>category_names := category_names st @ [category_name]\<rparr>
                   in case getitem cfg2 ''prefix'' of
                        Inl err \<Rightarrow> (st1, Some err)
                      | Inr prefix \<Rightarrow>
                          (case walk_category rt fs cat prefix st1 of
                             (st2, Inl err) \<Rightarrow> (st2, Some err)
                           | (st2, Inr sticker_names) \<Rightarrow>
                               if \<not> hashable category_name then (st2, Some TypeError)
                               else
                                 (let st3 = st2\<lparr>category_sticker_names :=
                                        category_sticker_names st2 @ [(category_name, sticker_names)]\<rparr>;
                                      cfg3 = cfg2(KStr ''sticker_names'' \<mapsto> PyList sticker_names)
                                  in case category_command cfg3 of
                                       Inl err \<Rightarrow> (st3, Some err)
                                     | Inr cmd \<Rightarrow> (add_command (CategoryAction cmd) st3, None))))))"

fun walk_entries :: "runtime \<Rightarrow> snapshot \<Rightarrow> root_entry list \<Rightarrow> cog_state \<Rightarrow> cog_state \<times> error option" where
  "walk_entries rt fs [] st = (st, None)"
| "walk_entries rt fs (cat # cats) st =
     (if r_is_dir cat then
        (case walk_directory rt fs cat st of
           (st', Some err) \<Rightarrow> (st', Some err)
         | (st', None) \<Rightarrow> walk_entries rt fs cats st')
      else walk_entries rt fs cats st)"

text \<open>
  \<^verbatim>\<open>Stickers.__init__\<close>: empty \<^verbatim>\<open>category_names\<close> and \<^verbatim>\<open>category_sticker_names\<close>, then
  \<^verbatim>\<open>_walk_root\<close>, on a bot that holds the commands \<open>registered\<close> already.
\<close>

definition walk_root :: "runtime \<Rightarrow> snapshot \<Rightarrow> command list \<Rightarrow> cog_state \<times> error option" where
  "walk_root rt fs registered =
     walk_entries rt fs (iterdir_root fs)
       \<lparr>commands = registered, category_names = [], category_sticker_names = []\<rparr>"

section \<open>The registry\<close>

text \<open>
  Modelled from the spec: the host framework's command table, which is not part of the
  source. The spec's Registry maps an action's primary name and each of its aliases to
  the action, and a key that is registered again is overwritten.
\<close>

definition command_keys :: "command \<Rightarrow> pyval list" where
  "command_keys cmd =
     (case cmd of
        ItemAction c \<Rightarrow>
          s_name c # (case s_aliases c of Json (JArr xs) \<Rightarrow> map Json xs | _ \<Rightarrow> [])
      | CategoryAction c \<Rightarrow> [c_name c])"

definition register :: "command \<Rightarrow> (pyval \<rightharpoonup> command) \<Rightarrow> (pyval \<rightharpoonup> command)" where
  "register cmd reg = fold (\<lambda>k r. r(k \<mapsto> cmd)) (command_keys cmd) reg"

definition registry_of :: "command list \<Rightarrow> (pyval \<rightharpoonup> command)" where
  "registry_of cmds = fold register cmds Map.empty"

section \<open>Invoking a command\<close>

text \<open>
  A callback talks to the chat transport. Its model is the list of the external calls
  it makes, in order, and how it ends. What each call answers is given by the
  \<open>transport\<close>: whether \<^verbatim>\<open>discord.File\<close> can open a file, the webhooks of the guild
  (\<open>None\<close> when the query raises), what \<^verbatim>\<open>Webhook.from_url\<close> gives, and whether the
  sends and the deletion succeed. Every enumerated webhook exposes the name of its
  channel, its token (\<open>None\<close> when it has none) and its URL. The \<^verbatim>\<open>aiohttp\<close> session
  only wraps the calls and re-raises.
\<close>

record webhook_info =
  wh_channel :: string
  wh_token :: "string option"
  wh_url :: string

record invocation =
  channel_name :: string
  avatar_url :: string
  display_name :: string

datatype url_reply = UrlRaises | UrlNone | UrlWebhook

record transport =
  open_file :: "pyval \<Rightarrow> bool"
  guild_webhooks :: "webhook_info list option"
  ctx_send :: bool
  from_url :: "string \<Rightarrow> url_reply"
  message_delete :: bool
  webhook_send :: bool

datatype event =
    OpenFile pyval
  | ListWebhooks
  | CtxSend string "pyval option" "nat option"
  | LogError string
  | FromUrl string
  | DeleteMessage
  | WebhookSend string string pyval "pyval option"

datatype outcome = Returned | Raised error

text \<open>An external call, then the rest of the callback if the call did not raise.\<close>

definition attempt :: "event \<Rightarrow> bool \<Rightarrow> error \<Rightarrow> event list \<times> outcome \<Rightarrow> event list \<times> outcome" where
  "attempt ev ok err rest = (if ok then (ev # fst rest, snd rest) else ([ev], Raised err))"

text \<open>\<^verbatim>\<open>final_file = None if file is None else discord.File(file)\<close>\<close>

definition final_file :: "pyval \<Rightarrow> pyval option" where
  "final_file f = (if f = PyNone then None else Some f)"

definition with_file :: "transport \<Rightarrow> pyval \<Rightarrow> event list \<times> outcome \<Rightarrow> event list \<times> outcome" where
  "with_file env f rest =
     (if f = PyNone then rest else attempt (OpenFile f) (open_file env f) OSError rest)"

definition category_callback :: "category_cmd \<Rightarrow> transport \<Rightarrow> event list \<times> outcome" where
  "category_callback cmd env =
     with_file env (c_file cmd)
       (attempt (CtxSend (c_formatted cmd) (final_file (c_file cmd)) None) (ctx_send env)
          TransportError ([], Returned))"

text \<open>The search loop of the sticker callback: the first webhook that passes the test.\<close>

fun find_webhook :: "string \<Rightarrow> webhook_info list \<Rightarrow> webhook_info option" where
  "find_webhook channel [] = None"
| "find_webhook channel (wh # whs) =
     (if wh_channel wh = channel \<and> wh_token wh \<noteq> None then Some wh
      else find_webhook channel whs)"

definition deliver :: "sticker_cmd \<Rightarrow> transport \<Rightarrow> invocation \<Rightarrow> event list \<times> outcome" where
  "deliver cmd env ctx =
     attempt DeleteMessage (message_delete env) TransportError
       (attempt (WebhookSend (avatar_url ctx) (display_name ctx) (s_message cmd)
                   (final_file (s_file cmd)))
          (webhook_send env) TransportError ([], Returned))"

definition sticker_callback :: "sticker_cmd \<Rightarrow> transport \<Rightarrow> invocation \<Rightarrow> event list \<times> outcome" where
  "sticker_callback cmd env ctx =
     with_file env (s_file cmd)
       (case guild_webhooks env of
          None \<Rightarrow> ([ListWebhooks], Raised TransportError)
        | Some whs \<Rightarrow>
            attempt ListWebhooks True TransportError
              (case find_webhook (channel_name ctx) whs of
                 None \<Rightarrow>
                   attempt (CtxSend (''Missing webhook for #'' @ channel_name ctx) None (Some 8))
                     (ctx_send env) TransportError ([], Returned)
               | Some wh \<Rightarrow>
                   (case from_url env (wh_url wh) of
                      UrlRaises \<Rightarrow> ([FromUrl (wh_url wh)], Raised TransportError)
                    | UrlNone \<Rightarrow>
                        attempt (FromUrl (wh_url wh)) True TransportError
                          (attempt (LogError (''Unable find a webhook in #'' @ channel_name ctx @ ''!''))
                             True TransportError
                             (attempt (CtxSend (''Unable find a webhook in #'' @ channel_name ctx @ ''!'')
                                         None (Some 8))
                                (ctx_send env) TransportError ([], Returned)))
                    | UrlWebhook \<Rightarrow>
                        attempt (FromUrl (wh_url wh)) True TransportError (deliver cmd env ctx))))"

section \<open>A runtime and snapshots for the examples\<close>

text \<open>\<^verbatim>\<open>str.capitalize\<close> on ASCII text: the first letter in upper case, the rest in lower case.\<close>

definition ascii_upper :: "char \<Rightarrow> char" where
  "ascii_upper c =
     (case map_of (zip ''abcdefghijklmnopqrstuvwxyz'' ''ABCDEFGHIJKLMNOPQRSTUVWXYZ'') c of
        Some u \<Rightarrow> u
      | None \<Rightarrow> c)"

definition ascii_lower :: "char \<Rightarrow> char" where
  "ascii_lower c =
     (case map_of (zip ''ABCDEFGHIJKLMNOPQRSTUVWXYZ'' ''abcdefghijklmnopqrstuvwxyz'') c of
        Some l \<Rightarrow> l
      | None \<Rightarrow> c)"

definition ascii_capitalize :: "string \<Rightarrow> string" where
  "ascii_capitalize s = (case s of [] \<Rightarrow> [] | c # cs \<Rightarrow> ascii_upper c # map ascii_lower cs)"

definition ascii_runtime :: "string list \<Rightarrow> runtime" where
  "ascii_runtime order = \<lparr>capitalize = ascii_capitalize, str_of = (\<lambda>v. []), suffix_iter = order\<rparr>"

definition file_entry :: "string \<Rightarrow> string \<Rightarrow> item_entry" where
  "file_entry stem suffix = \<lparr>i_name = stem @ suffix, i_stem = stem, i_suffix = suffix, i_is_file = True\<rparr>"

definition dir_entry :: "string \<Rightarrow> item_entry list \<Rightarrow> root_entry" where
  "dir_entry nm listing = \<lparr>r_name = nm, r_stem = nm, r_is_dir = True, r_listing = listing\<rparr>"

section \<open>Vocabulary of the properties\<close>

text \<open>
  A webhook qualifies for a channel when it is bound to a channel of that name and
  carries a token (the token is optional: none is \<open>None\<close>).
\<close>

definition qualifies :: "string \<Rightarrow> webhook_info \<Rightarrow> bool" where
  "qualifies channel wh = (wh_channel wh = channel \<and> wh_token wh \<noteq> None)"

text \<open>The events of \<^verbatim>\<open>discord.File(file)\<close> when it succeeds: none for no file.\<close>

definition opened :: "pyval \<Rightarrow> event list" where
  "opened f = (if f = PyNone then [] else [OpenFile f])"

subsection \<open>Example invocations\<close>

definition woof_cmd :: sticker_cmd where
  "woof_cmd = \<lparr>s_name = PyStr ''Woof'', s_file = PathRef [''stickers'', ''good_boy'', ''woof.png''],
      s_aliases = Json (JArr []), s_message = PyStr [], s_hidden = Json (JBool True)\<rparr>"

definition general_ctx :: invocation where
  "general_ctx = \<lparr>channel_name = ''general'', avatar_url = ''https://cdn/avatar.png'',
      display_name = ''Rex''\<rparr>"

definition hook :: "string \<Rightarrow> string option \<Rightarrow> string \<Rightarrow> webhook_info" where
  "hook channel token url = \<lparr>wh_channel = channel, wh_token = token, wh_url = url\<rparr>"

definition some_hooks :: "webhook_info list" where
  "some_hooks =
     [hook ''random'' (Some ''t0'') ''https://hooks/0'',
      hook ''general'' None ''https://hooks/1'',
      hook ''general'' (Some ''t2'') ''https://hooks/2'',
      hook ''general'' (Some ''t3'') ''https://hooks/3'']"

definition env_with :: "webhook_info list \<Rightarrow> bool \<Rightarrow> bool \<Rightarrow> transport" where
  "env_with whs del snd_ok =
     \<lparr>open_file = (\<lambda>f. True), guild_webhooks = Some whs, ctx_send = True,
      from_url = (\<lambda>u. UrlWebhook), message_delete = del, webhook_send = snd_ok\<rparr>"

subsection \<open>Templates and registrations\<close>

text \<open>Literal text of a template: no brace in it.\<close>

definition braceless :: "string \<Rightarrow> bool" where
  "braceless s = (CHR ''{'' \<notin> set s \<and> CHR ''}'' \<notin> set s)"

text \<open>The same cog state on a bot that held the commands \<open>pre\<close> before.\<close>

definition shift :: "command list \<Rightarrow> cog_state \<Rightarrow> cog_state" where
  "shift pre st = st\<lparr>commands := pre @ commands st\<rparr>"

subsection \<open>Example configurations and snapshots\<close>

definition pack_cfg :: config where
  "pack_cfg =
     [KStr ''hidden'' \<mapsto> Json (JBool False),
      KStr ''name'' \<mapsto> PyStr ''GoodBoy'',
      KStr ''prefix'' \<mapsto> PyStr [],
      KStr ''message'' \<mapsto> PyStr '' Pack: {} '',
      KStr ''file'' \<mapsto> PathRef [''stickers'', ''good_boy.png''],
      KStr ''sticker_names'' \<mapsto> PyList [PyStr ''Woof'', PyStr ''Bark'']]"

definition pack_cmd :: category_cmd where
  "pack_cmd =
     \<lparr>c_hidden = Json (JBool False), c_name = PyStr ''GoodBoy'',
      c_file = PathRef [''stickers'', ''good_boy.png''], c_message = PyStr '' Pack: {} '',
      c_sticker_names = [PyStr ''Woof'', PyStr ''Bark''], c_formatted = ''Pack: Woof Bark''\<rparr>"

text \<open>Two categories, each with a \<^verbatim>\<open>woof.png\<close>, and no descriptor anywhere.\<close>

definition two_packs :: snapshot where
  "two_packs =
     \<lparr>iterdir_root = [dir_entry ''dogs'' [file_entry ''woof'' ''.png''],
                       dir_entry ''cats'' [file_entry ''woof'' ''.png'']],
      exists_root = (\<lambda>n. False),
      open_json = (\<lambda>p. Unreadable)\<rparr>"

subsection \<open>What a document assigns\<close>

text \<open>
  The assignment an element of an iterated document stands for, when it is a sequence
  of two items with a hashable first item.
\<close>

definition pair_of :: "json \<Rightarrow> (key \<times> pyval) option" where
  "pair_of x =
     (case as_sequence x of
        None \<Rightarrow> None
      | Some items \<Rightarrow>
          (case items of
             [k, v] \<Rightarrow> (case hash_key k of None \<Rightarrow> None | Some k' \<Rightarrow> Some (k', Json v))
           | _ \<Rightarrow> None))"

text \<open>
  The documents \<^verbatim>\<open>update\<close> accepts: an object, or a list or string all of whose elements
  stand for an assignment (for a string that is the empty string only).
\<close>

definition accepted :: "json \<Rightarrow> bool" where
  "accepted doc =
     (case doc of
        JObj kvs \<Rightarrow> True
      | _ \<Rightarrow>
          (case as_sequence doc of
             None \<Rightarrow> False
           | Some items \<Rightarrow> list_all (\<lambda>x. pair_of x \<noteq> None) items))"

text \<open>The value a document gives a key: that of the last assignment to the key, if any.\<close>

definition assigned :: "json \<Rightarrow> key \<Rightarrow> pyval option" where
  "assigned doc k =
     (case doc of
        JObj kvs \<Rightarrow> map_of (rev (map (\<lambda>(s, v). (KStr s, Json v)) kvs)) k
      | _ \<Rightarrow>
          (case as_sequence doc of
             None \<Rightarrow> None
           | Some items \<Rightarrow> map_of (rev (List.map_filter pair_of items)) k))"

text \<open>The same for the descriptor at a path; a descriptor that is not decoded assigns nothing.\<close>

definition descriptor_assigns :: "snapshot \<Rightarrow> path \<Rightarrow> key \<Rightarrow> pyval option" where
  "descriptor_assigns fs p k =
     (case open_json fs p of
        Decoded doc \<Rightarrow> assigned doc k
      | _ \<Rightarrow> None)"

text \<open>
  The merge of the descriptor at a path raises: its content does not parse, or parses
  to a value \<^verbatim>\<open>update\<close> does not accept.
\<close>

definition descriptor_raises :: "snapshot \<Rightarrow> path \<Rightarrow> bool" where
  "descriptor_raises fs p =
     (case open_json fs p of
        Unreadable \<Rightarrow> False
      | Malformed \<Rightarrow> True
      | Decoded doc \<Rightarrow> \<not> accepted doc)"

subsection \<open>Sticker records\<close>

text \<open>A record has the five keys \<^verbatim>\<open>_sticker_command\<close> reads.\<close>

definition complete :: "config \<Rightarrow> bool" where
  "complete cfg =
     (\<forall>k\<in>{''name'', ''file'', ''aliases'', ''message'', ''hidden''}. cfg (KStr k) \<noteq> None)"

text \<open>
  The \<^verbatim>\<open>file\<close> a descriptor gives a record that has none: the value the document assigns
  to the key \<^verbatim>\<open>file\<close>, \<^verbatim>\<open>None\<close> when it assigns none or cannot be read.
\<close>

definition descriptor_file :: "snapshot \<Rightarrow> path \<Rightarrow> pyval" where
  "descriptor_file fs p =
     (case descriptor_assigns fs p (KStr ''file'') of
        Some v \<Rightarrow> v
      | None \<Rightarrow> PyNone)"

text \<open>The cog state after the sticker commands \<open>items\<close> are added to the bot.\<close>

definition stickers_added :: "sticker_cmd list \<Rightarrow> cog_state \<Rightarrow> cog_state" where
  "stickers_added items st = st\<lparr>commands := commands st @ map ItemAction items\<rparr>"

text \<open>The invariant of the first loop: one record per stem, each with the five keys.\<close>

definition well_formed :: "sticker_dict \<Rightarrow> bool" where
  "well_formed d = (distinct (map fst d) \<and> (\<forall>p\<in>set d. complete (snd p)))"

subsection \<open>What the build registers for a category\<close>

text \<open>
  The record of stem \<open>s\<close>, if there is one, has the \<^verbatim>\<open>file\<close> its descriptor gives it.
\<close>

definition file_settled :: "snapshot \<Rightarrow> string \<Rightarrow> string \<Rightarrow> sticker_dict \<Rightarrow> bool" where
  "file_settled fs cat s d =
     (case map_of d s of
        None \<Rightarrow> True
      | Some c \<Rightarrow> c (KStr ''file'') = Some (descriptor_file fs [root, cat, s @ ''.json'']))"

text \<open>
  The commands of one category, in the order they are added: its stickers, then the
  category itself.
\<close>

definition group_commands :: "sticker_cmd list \<times> category_cmd \<Rightarrow> command list" where
  "group_commands g = map ItemAction (fst g) @ [CategoryAction (snd g)]"

text \<open>
  A category's sticker commands and its own command agree with its directory: the
  sticker commands are those of the records collected from the directory, one per stem
  and in the order of the dictionary, and the category's \<^verbatim>\<open>sticker_names\<close> are their names
  in the same order.
\<close>

definition category_listing ::
  "runtime \<Rightarrow> snapshot \<Rightarrow> root_entry \<Rightarrow> sticker_cmd list \<times> category_cmd \<Rightarrow> bool" where
  "category_listing rt fs cat g =
     (c_sticker_names (snd g) = map s_name (fst g) \<and>
      (\<exists>prefix d. collect rt fs (r_name cat) prefix (r_listing cat) [] = Inr d
          \<and> distinct (map fst d) \<and> map (sticker_command \<circ> snd) d = map Inr (fst g)))"

subsection \<open>Example: a descriptor without a media file\<close>

definition bark_only :: snapshot where
  "bark_only =
     \<lparr>iterdir_root = [dir_entry ''good_boy'' [file_entry ''bark'' ''.json'', file_entry ''woof'' ''.png'']],
      exists_root = (\<lambda>n. False),
      open_json = (\<lambda>p. if p = [''stickers'', ''good_boy'', ''bark.json'']
                         then Decoded (JObj [(''message'', JStr ''Grr'')]) else Unreadable)\<rparr>"

definition good_boy :: root_entry where
  "good_boy = dir_entry ''good_boy'' [file_entry ''bark'' ''.json'', file_entry ''woof'' ''.png'']"

definition empty_cog :: cog_state where
  "empty_cog = \<lparr>commands = [], category_names = [], category_sticker_names = []\<rparr>"

subsection \<open>Thumbnails and enumeration orders\<close>

text \<open>At most one \<^verbatim>\<open>root / (stem + ext)\<close> exists among the recognised media suffixes.\<close>

definition one_thumbnail :: "snapshot \<Rightarrow> string \<Rightarrow> bool" where
  "one_thumbnail fs stem =
     (\<forall>a\<in>IMAGE_SUFFIXES. \<forall>b\<in>IMAGE_SUFFIXES.
        exists_root fs (stem @ a) \<and> exists_root fs (stem @ b) \<longrightarrow> a = b)"

text \<open>The name and the file of every sticker command, in order.\<close>

definition item_files :: "command list \<Rightarrow> (pyval \<times> pyval) list" where
  "item_files cmds =
     concat (map (\<lambda>c. case c of ItemAction i \<Rightarrow> [(s_name i, s_file i)] | CategoryAction k \<Rightarrow> []) cmds)"

subsection \<open>Example snapshots\<close>

text \<open>
  A category with \<^verbatim>\<open>woof.png\<close> and \<^verbatim>\<open>woof.json\<close>, the descriptor being
  \<^verbatim>\<open>{"file": "other.png"}\<close>, enumerated in either order.
\<close>

definition override_doc :: "path \<Rightarrow> read_result" where
  "override_doc p =
     (if p = [''stickers'', ''good_boy'', ''woof.json'']
      then Decoded (JObj [(''file'', JStr ''other.png'')]) else Unreadable)"

definition media_first :: snapshot where
  "media_first =
     \<lparr>iterdir_root = [dir_entry ''good_boy'' [file_entry ''woof'' ''.png'', file_entry ''woof'' ''.json'']],
      exists_root = (\<lambda>n. False), open_json = override_doc\<rparr>"

definition descriptor_first :: snapshot where
  "descriptor_first =
     \<lparr>iterdir_root = [dir_entry ''good_boy'' [file_entry ''woof'' ''.json'', file_entry ''woof'' ''.png'']],
      exists_root = (\<lambda>n. False), open_json = override_doc\<rparr>"

text \<open>
  Descriptors in the root: \<^verbatim>\<open>dogs.json\<close> is the empty object, \<^verbatim>\<open>pack.json\<close> does not
  parse, \<^verbatim>\<open>five.json\<close> is the number 5 and \<^verbatim>\<open>text.json\<close> is the string \<^verbatim>\<open>"ab"\<close>.
\<close>

definition sample_docs :: "path \<Rightarrow> read_result" where
  "sample_docs p =
     (if p = [''stickers'', ''dogs.json''] then Decoded (JObj [])
      else if p = [''stickers'', ''pack.json''] then Malformed
      else if p = [''stickers'', ''five.json''] then Decoded (JNum 5)
      else if p = [''stickers'', ''text.json''] then Decoded (JStr ''ab'')
      else Unreadable)"

text \<open>Two categories: \<^verbatim>\<open>dogs\<close>, then one whose descriptor makes the merge raise.\<close>

definition broken_second :: snapshot where
  "broken_second =
     \<lparr>iterdir_root = [dir_entry ''dogs'' [file_entry ''woof'' ''.png''], dir_entry ''pack'' []],
      exists_root = (\<lambda>n. False), open_json = sample_docs\<rparr>"

definition scalar_second :: snapshot where
  "scalar_second =
     \<lparr>iterdir_root = [dir_entry ''dogs'' [file_entry ''woof'' ''.png''], dir_entry ''five'' []],
      exists_root = (\<lambda>n. False), open_json = sample_docs\<rparr>"

text \<open>The same, with a document that does not parse inside \<^verbatim>\<open>pack\<close>.\<close>

definition broken_item :: snapshot where
  "broken_item =
     \<lparr>iterdir_root = [dir_entry ''dogs'' [file_entry ''woof'' ''.png''],
                       dir_entry ''pack'' [file_entry ''bad'' ''.json'']],
      exists_root = (\<lambda>n. False),
      open_json = (\<lambda>p. if p = [''stickers'', ''pack'', ''bad.json''] then Malformed
                         else Unreadable)\<rparr>"

text \<open>Two iteration orders of \<^verbatim>\<open>IMAGE_SUFFIXES\<close>, and a root with one category and some thumbnails.\<close>

definition gif_first :: "string list" where
  "gif_first = [''.gif'', ''.jpeg'', ''.jpg'', ''.png'', ''.mp4'', ''.webm'']"

definition png_first :: "string list" where
  "png_first = [''.png'', ''.gif'', ''.jpeg'', ''.jpg'', ''.mp4'', ''.webm'']"

definition thumbs :: "string list \<Rightarrow> snapshot" where
  "thumbs present =
     \<lparr>iterdir_root = [dir_entry ''cat'' []],
      exists_root = (\<lambda>n. n \<in> set present), open_json = (\<lambda>p. Unreadable)\<rparr>"

section \<open>Dispatch: which webhook is chosen\<close>

lemma find_webhook_None:
  "find_webhook channel whs = None \<longleftrightarrow> (\<forall>wh\<in>set whs. \<not> qualifies channel wh)"
  by (induction whs) (auto simp: qualifies_def)

lemma find_webhook_Some:
  "find_webhook channel whs = Some wh \<Longrightarrow>
     \<exists>before after. whs = before @ wh # after \<and> qualifies channel wh
        \<and> (\<forall>w\<in>set before. \<not> qualifies channel w)"
proof (induction whs)
  case Nil
  then show ?case by simp
next
  case (Cons w ws)
  show ?case
  proof (cases "wh_channel w = channel \<and> wh_token w \<noteq> None")
    case True
    with Cons.prems have "w = wh" by simp
    with True have "w # ws = [] @ wh # ws \<and> qualifies channel wh
        \<and> (\<forall>x\<in>set []. \<not> qualifies channel x)"
      by (simp add: qualifies_def)
    then show ?thesis by blast
  next
    case False
    with Cons.prems have "find_webhook channel ws = Some wh" by auto
    from Cons.IH[OF this] obtain before after where
      "ws = before @ wh # after" "qualifies channel wh" "\<forall>x\<in>set before. \<not> qualifies channel x"
      by blast
    with False have "w # ws = (w # before) @ wh # after \<and> qualifies channel wh
        \<and> (\<forall>x\<in>set (w # before). \<not> qualifies channel x)"
      by (simp add: qualifies_def)
    then show ?thesis by blast
  qed
qed

text \<open>
  C5. The webhook the sticker callback selects is the first one of the enumerated
  sequence that is bound to a channel with the invoking channel's name and has a token;
  when the search selects none, no webhook of the sequence qualifies. A webhook without
  a token (\<open>wh_token = None\<close>, the test of the source being \<^verbatim>\<open>token is not None\<close>) is never
  selected.
\<close>

theorem first_qualifying_webhook_selected:
  "(case find_webhook channel whs of
      None \<Rightarrow> \<forall>wh\<in>set whs. \<not> qualifies channel wh
    | Some wh \<Rightarrow>
        wh_token wh \<noteq> None \<and>
        (\<exists>before after. whs = before @ wh # after \<and> qualifies channel wh
            \<and> (\<forall>w\<in>set before. \<not> qualifies channel w)))"
proof (cases "find_webhook channel whs")
  case None
  then have "\<forall>wh\<in>set whs. \<not> qualifies channel wh"
    by (simp add: find_webhook_None)
  with None show ?thesis by simp
next
  case (Some wh)
  from find_webhook_Some[OF Some] show ?thesis
    using Some by (auto simp: qualifies_def)
qed

theorem first_qualifying_webhook_selected_witness:
  "find_webhook ''general'' some_hooks = Some (hook ''general'' (Some ''t2'') ''https://hooks/2'')
   \<and> wh_token (hook ''general'' (Some ''t2'') ''https://hooks/2'') \<noteq> None
   \<and> (\<exists>before after. some_hooks = before @ hook ''general'' (Some ''t2'') ''https://hooks/2'' # after
        \<and> (\<forall>w\<in>set before. \<not> qualifies ''general'' w))"
  using first_qualifying_webhook_selected[where channel = "''general''" and whs = some_hooks]
  by (simp add: some_hooks_def hook_def) blast

section \<open>Dispatch: the sticker callback\<close>

lemma with_file_ok:
  "f = PyNone \<or> open_file env f \<Longrightarrow> with_file env f rest = (opened f @ fst rest, snd rest)"
  by (auto simp: with_file_def attempt_def opened_def)

text \<open>
  C3. An invocation of a sticker command that reaches the search (its file, if it has
  one, opens and the guild's webhooks are enumerated) and finds no qualifying webhook
  sends the notice \<^verbatim>\<open>Missing webhook for #<channel>\<close> with \<^verbatim>\<open>delete_after=8\<close> and ends:
  it makes no other call after the enumeration, so it neither deletes the triggering
  message nor sends through a webhook.
\<close>

theorem missing_webhook_notice:
  assumes "s_file cmd = PyNone \<or> open_file env (s_file cmd)"
    and "guild_webhooks env = Some whs"
    and "find_webhook (channel_name ctx) whs = None"
  shows "sticker_callback cmd env ctx =
           (opened (s_file cmd) @
              [ListWebhooks, CtxSend (''Missing webhook for #'' @ channel_name ctx) None (Some 8)],
            if ctx_send env then Returned else Raised TransportError)
         \<and> DeleteMessage \<notin> set (fst (sticker_callback cmd env ctx))
         \<and> (\<forall>a u m f. WebhookSend a u m f \<notin> set (fst (sticker_callback cmd env ctx)))"
  using assms by (auto simp: sticker_callback_def with_file_ok attempt_def opened_def)

theorem missing_webhook_notice_witness:
  "sticker_callback woof_cmd (env_with [hook ''general'' None ''https://hooks/1''] True True) general_ctx =
     ([OpenFile (PathRef [''stickers'', ''good_boy'', ''woof.png'']), ListWebhooks,
       CtxSend ''Missing webhook for #general'' None (Some 8)], Returned)
   \<and> DeleteMessage \<notin> set (fst (sticker_callback woof_cmd
        (env_with [hook ''general'' None ''https://hooks/1''] True True) general_ctx))"
  using missing_webhook_notice[where cmd = woof_cmd and ctx = general_ctx
      and env = "env_with [hook ''general'' None ''https://hooks/1''] True True"
      and whs = "[hook ''general'' None ''https://hooks/1'']"]
  by (simp add: woof_cmd_def env_with_def general_ctx_def hook_def opened_def)

text \<open>
  C4. When the search finds a qualifying webhook, the callback builds the webhook from
  its URL, deletes the triggering message and only then sends through the webhook, with
  the sticker's message, its file if it has one, and the invoking user's avatar and
  display name. The calls are made once each and in this order: the deletion stands
  strictly before the delivery. A call that raises ends the callback with that failure:
  nothing is called after it, so a failed deletion is followed by no delivery and a
  failed delivery leaves the deletion done. The defensive branch of the source for
  \<^verbatim>\<open>Webhook.from_url\<close> giving \<^verbatim>\<open>None\<close> sends a notice and makes neither call.
\<close>

theorem delete_then_deliver:
  assumes "s_file cmd = PyNone \<or> open_file env (s_file cmd)"
    and "guild_webhooks env = Some whs"
    and "find_webhook (channel_name ctx) whs = Some wh"
  shows "sticker_callback cmd env ctx =
     (case from_url env (wh_url wh) of
        UrlWebhook \<Rightarrow>
          (opened (s_file cmd) @ [ListWebhooks, FromUrl (wh_url wh), DeleteMessage] @
             (if message_delete env
              then [WebhookSend (avatar_url ctx) (display_name ctx) (s_message cmd)
                      (final_file (s_file cmd))]
              else []),
           if message_delete env \<and> webhook_send env then Returned else Raised TransportError)
      | UrlRaises \<Rightarrow>
          (opened (s_file cmd) @ [ListWebhooks, FromUrl (wh_url wh)], Raised TransportError)
      | UrlNone \<Rightarrow>
          (opened (s_file cmd) @ [ListWebhooks, FromUrl (wh_url wh),
             LogError (''Unable find a webhook in #'' @ channel_name ctx @ ''!''),
             CtxSend (''Unable find a webhook in #'' @ channel_name ctx @ ''!'') None (Some 8)],
           if ctx_send env then Returned else Raised TransportError))"
  using assms
  by (auto simp: sticker_callback_def with_file_ok attempt_def deliver_def split: url_reply.splits)

theorem delete_then_deliver_witness:
  "sticker_callback woof_cmd (env_with some_hooks True False) general_ctx =
     ([OpenFile (PathRef [''stickers'', ''good_boy'', ''woof.png'']), ListWebhooks,
       FromUrl ''https://hooks/2'', DeleteMessage,
       WebhookSend ''https://cdn/avatar.png'' ''Rex'' (PyStr [])
         (Some (PathRef [''stickers'', ''good_boy'', ''woof.png'']))],
      Raised TransportError)"
  using delete_then_deliver[where cmd = woof_cmd and ctx = general_ctx
      and env = "env_with some_hooks True False" and whs = some_hooks
      and wh = "hook ''general'' (Some ''t2'') ''https://hooks/2''"]
  by (simp add: woof_cmd_def env_with_def general_ctx_def hook_def opened_def some_hooks_def
      final_file_def)

section \<open>The category callback\<close>

lemma py_format_literal:
  "braceless pre \<Longrightarrow> py_format n arg (pre @ rest) = map_sum id ((@) pre) (py_format n arg rest)"
proof (induction pre)
  case Nil
  show ?case by (cases "py_format n arg rest") simp_all
next
  case (Cons c pre)
  then have c: "c \<noteq> CHR ''{''" "c \<noteq> CHR ''}''" and pre: "braceless pre"
    by (auto simp: braceless_def)
  show ?case
  proof (cases "pre @ rest")
    case Nil
    with c show ?thesis by simp
  next
    case (Cons d cs)
    have "py_format n arg ((c # pre) @ rest) = map_sum id ((#) c) (py_format n arg (pre @ rest))"
      using c Cons by simp
    then show ?thesis
      using Cons.IH[OF pre] by (cases "py_format n arg rest") simp_all
  qed
qed

lemma py_format_single_field:
  assumes "braceless pre" "braceless post"
  shows "py_format 0 arg (pre @ ''{}'' @ post) = Inr (pre @ arg @ post)"
proof -
  have post: "py_format (Suc 0) arg post = Inr post"
    using py_format_literal[OF assms(2), of "Suc 0" arg "[]"] by simp
  have "py_format 0 arg (''{}'' @ post) = Inr (arg @ post)"
    using post by simp
  then show ?thesis
    using py_format_literal[OF assms(1), of 0 arg "''{}'' @ post"] by simp
qed

lemma str_items_Inr: "str_items vs = Inr ss \<Longrightarrow> vs = map PyStr ss"
proof (induction vs arbitrary: ss)
  case Nil
  then show ?case by simp
next
  case (Cons v vs)
  then show ?case
    by (cases "str_items vs") (auto split: pyval.splits json.splits)
qed

lemma category_command_Inr:
  assumes "category_command cfg = Inr cmd"
  shows "\<exists>names. cfg (KStr ''sticker_names'') = Some (PyList names) \<and> c_sticker_names cmd = names
     \<and> cfg (KStr ''hidden'') = Some (c_hidden cmd) \<and> cfg (KStr ''name'') = Some (c_name cmd)
     \<and> cfg (KStr ''file'') = Some (c_file cmd) \<and> cfg (KStr ''message'') = Some (c_message cmd)
     \<and> format_listing (c_message cmd) names = Inr (c_formatted cmd)"
  using assms
  by (auto simp: category_command_def bind_err_def getitem_def
      split: option.splits sum.splits pyval.splits)

text \<open>
  C9. For a category command built from a configuration whose message template is
  literal text around one \<^verbatim>\<open>{}\<close> field, the text the callback sends is the template with
  the field replaced by the sticker names joined by single spaces, stripped of the
  whitespace around it. The thumbnail is attached when the configuration has one
  (\<^verbatim>\<open>file\<close> is not \<^verbatim>\<open>None\<close>) and no file is attached otherwise.
\<close>

theorem category_listing_message:
  assumes "category_command cfg = Inr cmd"
    and "c_message cmd = PyStr (pre @ ''{}'' @ post)"
    and "braceless pre" and "braceless post"
  shows "\<exists>ss. c_sticker_names cmd = map PyStr ss
           \<and> c_formatted cmd = strip (pre @ join '' '' ss @ post)
           \<and> category_callback cmd env =
               (if c_file cmd = PyNone
                then ([CtxSend (strip (pre @ join '' '' ss @ post)) None None],
                      if ctx_send env then Returned else Raised TransportError)
                else if open_file env (c_file cmd)
                then ([OpenFile (c_file cmd),
                       CtxSend (strip (pre @ join '' '' ss @ post)) (Some (c_file cmd)) None],
                      if ctx_send env then Returned else Raised TransportError)
                else ([OpenFile (c_file cmd)], Raised OSError))"
proof -
  from category_command_Inr[OF assms(1)]
  have fl: "format_listing (c_message cmd) (c_sticker_names cmd) = Inr (c_formatted cmd)"
    by auto
  with assms(2) obtain ss where ss: "str_items (c_sticker_names cmd) = Inr ss"
    and fmt: "bind_err (py_format 0 (join '' '' ss) (pre @ ''{}'' @ post)) (\<lambda>t. Inr (strip t))
               = Inr (c_formatted cmd)"
    by (auto simp: format_listing_def bind_err_def split: sum.splits)
  have formatted: "c_formatted cmd = strip (pre @ join '' '' ss @ post)"
    using fmt py_format_single_field[OF assms(3,4), of "join '' '' ss"]
    by (simp add: bind_err_def)
  have names: "c_sticker_names cmd = map PyStr ss"
    using str_items_Inr[OF ss] .
  have "category_callback cmd env =
               (if c_file cmd = PyNone
                then ([CtxSend (c_formatted cmd) None None],
                      if ctx_send env then Returned else Raised TransportError)
                else if open_file env (c_file cmd)
                then ([OpenFile (c_file cmd),
                       CtxSend (c_formatted cmd) (Some (c_file cmd)) None],
                      if ctx_send env then Returned else Raised TransportError)
                else ([OpenFile (c_file cmd)], Raised OSError))"
    by (simp add: category_callback_def with_file_def attempt_def final_file_def)
  with formatted names show ?thesis by (intro exI[of _ ss]) simp
qed

lemmas example_defs =
  walk_root_def walk_directory_def walk_category_def collect_entry_def Let_def
  category_defaults_def sticker_defaults_def load_descriptor_def getitem_def bind_err_def
  category_command_def sticker_command_def add_command_def format_listing_def strip_def
  py_isspace_def snake_to_camel_def snake_to_title_def format_value_def dict_update_def
  update_object_def update_pair_def object_keys_def
  ascii_runtime_def ascii_capitalize_def ascii_upper_def ascii_lower_def file_entry_def
  dir_entry_def root_def IMAGE_SUFFIXES_def IMAGE_AND_JSON_SUFFIXES_def

theorem category_listing_message_witness:
  "category_command pack_cfg = Inr pack_cmd
   \<and> c_formatted pack_cmd = ''Pack: Woof Bark''
   \<and> category_callback pack_cmd (env_with [] True True) =
       ([OpenFile (PathRef [''stickers'', ''good_boy.png'']),
         CtxSend ''Pack: Woof Bark'' (Some (PathRef [''stickers'', ''good_boy.png''])) None],
        Returned)"
proof -
  have built: "category_command pack_cfg = Inr pack_cmd"
    by (simp add: pack_cfg_def pack_cmd_def example_defs)
  have msg: "c_message pack_cmd = PyStr ('' Pack: '' @ ''{}'' @ '' '')"
    by (simp add: pack_cmd_def)
  have lit: "braceless '' Pack: ''" "braceless '' ''"
    by (simp_all add: braceless_def)
  from category_listing_message[OF built msg lit, of "env_with [] True True"] built
  show ?thesis
    by (auto simp: pack_cmd_def env_with_def)
qed

section \<open>The registry\<close>

lemma fold_keys:
  "fold (\<lambda>k r. r(k \<mapsto> cmd)) ks reg k' = (if k' \<in> set ks then Some cmd else reg k')"
  by (induction ks arbitrary: reg) auto

lemma register_apply:
  "register cmd reg k = (if k \<in> set (command_keys cmd) then Some cmd else reg k)"
  by (simp add: register_def fold_keys)

lemma find_snoc:
  "List.find P (xs @ [x]) = (case List.find P xs of Some y \<Rightarrow> Some y | None \<Rightarrow> if P x then Some x else None)"
  by (induction xs) auto

lemma fold_register:
  "fold register cmds reg k =
     (case List.find (\<lambda>c. k \<in> set (command_keys c)) (rev cmds) of Some c \<Rightarrow> Some c | None \<Rightarrow> reg k)"
proof (induction cmds arbitrary: reg)
  case Nil
  then show ?case by simp
next
  case (Cons c cmds)
  have "fold register (c # cmds) reg k = fold register cmds (register c reg) k"
    by simp
  also have "\<dots> = (case List.find (\<lambda>c. k \<in> set (command_keys c)) (rev cmds) of
                      Some c' \<Rightarrow> Some c' | None \<Rightarrow> register c reg k)"
    by (rule Cons.IH)
  also have "\<dots> = (case List.find (\<lambda>c. k \<in> set (command_keys c)) (rev (c # cmds)) of
                      Some c' \<Rightarrow> Some c' | None \<Rightarrow> reg k)"
    by (simp add: find_snoc register_apply split: option.splits)
  finally show ?case .
qed

lemma add_stickers_shift:
  "add_stickers cfgs (shift pre st) names = map_prod (shift pre) id (add_stickers cfgs st names)"
proof (induction cfgs arbitrary: st names)
  case Nil
  then show ?case by simp
next
  case (Cons cfg cfgs)
  have sh: "\<And>c. add_command c (shift pre st) = shift pre (add_command c st)"
    by (simp add: add_command_def shift_def)
  show ?case
    by (simp add: Cons.IH sh split: sum.splits)
qed

lemma walk_category_shift:
  "walk_category rt fs cat prefix (shift pre st) = map_prod (shift pre) id (walk_category rt fs cat prefix st)"
  by (simp add: walk_category_def add_stickers_shift split: sum.splits)

lemma walk_directory_shift:
  "walk_directory rt fs cat (shift pre st) = map_prod (shift pre) id (walk_directory rt fs cat st)"
proof -
  have names: "\<And>v. (shift pre st)\<lparr>category_names := category_names (shift pre st) @ [v]\<rparr>
      = shift pre (st\<lparr>category_names := category_names st @ [v]\<rparr>)"
    by (simp add: shift_def)
  have sn: "\<And>s v. (shift pre s)\<lparr>category_sticker_names := category_sticker_names (shift pre s) @ [v]\<rparr>
      = shift pre (s\<lparr>category_sticker_names := category_sticker_names s @ [v]\<rparr>)"
    by (simp add: shift_def)
  have ac: "\<And>c s. add_command c (shift pre s) = shift pre (add_command c s)"
    by (simp add: add_command_def shift_def)
  show ?thesis
    unfolding walk_directory_def Let_def names walk_category_shift
    by (auto simp: sn ac split: sum.splits prod.splits)
qed

lemma walk_entries_shift:
  "walk_entries rt fs cats (shift pre st) = map_prod (shift pre) id (walk_entries rt fs cats st)"
proof (induction cats arbitrary: st)
  case Nil
  then show ?case by simp
next
  case (Cons cat cats)
  show ?case
    by (cases "walk_directory rt fs cat st") (auto simp: walk_directory_shift Cons.IH split: option.splits)
qed

text \<open>
  C8. In the registry of the spec, a key maps to the last command registered under it:
  whenever two registrations (a sticker's name, one of its aliases, a category's name)
  claim the same key, the later one replaces the earlier one. A registration never
  fails, so the build does not depend on what is registered already: on a bot that
  holds commands it ends as it does on an empty one and appends the same commands.
\<close>

theorem last_registration_wins:
  "registry_of cmds k = List.find (\<lambda>c. k \<in> set (command_keys c)) (rev cmds)
   \<and> walk_root rt fs registered = map_prod (shift registered) id (walk_root rt fs [])"
proof
  show "registry_of cmds k = List.find (\<lambda>c. k \<in> set (command_keys c)) (rev cmds)"
    by (simp add: registry_of_def fold_register split: option.splits)
  have "\<lparr>commands = registered, category_names = [], category_sticker_names = []\<rparr>
      = shift registered \<lparr>commands = [], category_names = [], category_sticker_names = []\<rparr>"
    by (simp add: shift_def)
  then show "walk_root rt fs registered = map_prod (shift registered) id (walk_root rt fs [])"
    by (simp add: walk_root_def walk_entries_shift)
qed

theorem last_registration_wins_witness:
  "snd (walk_root (ascii_runtime []) two_packs []) = None
   \<and> registry_of (commands (fst (walk_root (ascii_runtime []) two_packs []))) (PyStr ''Woof'') =
       Some (ItemAction \<lparr>s_name = PyStr ''Woof'',
          s_file = PathRef [''stickers'', ''cats'', ''woof.png''], s_aliases = Json (JArr []),
          s_message = PyStr [], s_hidden = Json (JBool True)\<rparr>)"
  using last_registration_wins[where cmds = "commands (fst (walk_root (ascii_runtime []) two_packs []))"
      and k = "PyStr ''Woof''" and rt = "ascii_runtime []" and fs = two_packs and registered = "[]"]
  by (simp add: two_packs_def example_defs command_keys_def)

section \<open>The sticker dictionary\<close>

subsection \<open>Storing a record\<close>

lemma map_of_store: "map_of (store k c d) = (map_of d)(k \<mapsto> c)"
  by (induction d) (auto simp: fun_eq_iff)

lemma keys_store:
  "map fst (store k c d) = (if k \<in> fst ` set d then map fst d else map fst d @ [k])"
  by (induction d) (force split: if_splits)+

lemma distinct_store: "distinct (map fst d) \<Longrightarrow> distinct (map fst (store k c d))"
  by (simp add: keys_store)

lemma set_store: "set (store k c d) \<subseteq> insert (k, c) (set d)"
  by (induction d) (auto split: if_splits)

lemma map_of_mem: "map_of d k = Some c \<Longrightarrow> (k, c) \<in> set d"
  by (rule map_of_SomeD)

subsection \<open>Updating a configuration\<close>

lemma update_object_apply:
  "update_object cfg kvs k =
     (case map_of (rev (map (\<lambda>(s, v). (KStr s, Json v)) kvs)) k of
        Some v \<Rightarrow> Some v
      | None \<Rightarrow> cfg k)"
proof (induction kvs arbitrary: cfg)
  case Nil
  then show ?case by (simp add: update_object_def)
next
  case (Cons kv kvs)
  obtain s v where kv: "kv = (s, v)" by (cases kv)
  have "update_object cfg (kv # kvs) k = update_object (cfg(KStr s \<mapsto> Json v)) kvs k"
    by (simp add: update_object_def kv)
  also have "\<dots> = (case map_of (rev (map (\<lambda>(s, v). (KStr s, Json v)) kvs)) k of
                      Some v \<Rightarrow> Some v
                    | None \<Rightarrow> (cfg(KStr s \<mapsto> Json v)) k)"
    by (rule Cons.IH)
  also have "\<dots> = (case map_of (rev (map (\<lambda>(s, v). (KStr s, Json v)) (kv # kvs))) k of
                      Some v \<Rightarrow> Some v
                    | None \<Rightarrow> cfg k)"
    by (simp add: kv map_add_def split: option.splits)
  finally show ?case .
qed

lemma update_pair_Inr:
  "update_pair cfg x = Inr cfg' \<longleftrightarrow> (\<exists>k v. pair_of x = Some (k, v) \<and> cfg' = cfg(k \<mapsto> v))"
  by (auto simp: update_pair_def pair_of_def split: option.splits list.splits)

lemma update_pair_Inl: "(\<exists>err. update_pair cfg x = Inl err) \<longleftrightarrow> pair_of x = None"
  by (auto simp: update_pair_def pair_of_def split: option.splits list.splits)

lemma update_pairs_apply:
  "update_pairs cfg xs = Inr cfg' \<Longrightarrow>
     cfg' k = (case map_of (rev (List.map_filter pair_of xs)) k of
                 Some v \<Rightarrow> Some v
               | None \<Rightarrow> cfg k)"
proof (induction xs arbitrary: cfg)
  case Nil
  then show ?case by (simp add: List.map_filter_simps)
next
  case (Cons x xs)
  from Cons.prems obtain c1 where c1: "update_pair cfg x = Inr c1"
    and rest: "update_pairs c1 xs = Inr cfg'"
    by (auto split: sum.splits)
  from c1 obtain k' v' where pair: "pair_of x = Some (k', v')" and upd: "c1 = cfg(k' \<mapsto> v')"
    by (auto simp: update_pair_Inr)
  from Cons.IH[OF rest] upd pair show ?case
    by (simp add: List.map_filter_simps map_add_def split: option.splits)
qed

lemma update_pairs_raises:
  "(\<exists>err. update_pairs cfg xs = Inl err) \<longleftrightarrow> \<not> list_all (\<lambda>x. pair_of x \<noteq> None) xs"
proof (induction xs arbitrary: cfg)
  case Nil
  then show ?case by simp
next
  case (Cons x xs)
  show ?case
  proof (cases "update_pair cfg x")
    case (Inl err)
    then have "pair_of x = None" using update_pair_Inl[of cfg x] by blast
    with Inl show ?thesis by simp
  next
    case (Inr c1)
    then have "pair_of x \<noteq> None" using update_pair_Inl[of cfg x] by auto
    with Inr Cons.IH[of c1] show ?thesis by simp
  qed
qed

lemma dict_update_apply:
  "dict_update cfg doc = Inr cfg' \<Longrightarrow>
     cfg' k = (case assigned doc k of Some v \<Rightarrow> Some v | None \<Rightarrow> cfg k)"
  by (cases doc)
     (auto simp: dict_update_def assigned_def update_object_apply update_pairs_apply)

lemma dict_update_raises: "(\<exists>err. dict_update cfg doc = Inl err) \<longleftrightarrow> \<not> accepted doc"
  by (cases doc) (simp_all add: dict_update_def accepted_def update_pairs_raises)

lemma dict_update_keeps: "dict_update cfg doc = Inr cfg' \<Longrightarrow> cfg k \<noteq> None \<Longrightarrow> cfg' k \<noteq> None"
  by (simp add: dict_update_apply split: option.splits)

lemma load_descriptor_apply:
  "load_descriptor fs p cfg = Inr cfg' \<Longrightarrow>
     cfg' k = (case descriptor_assigns fs p k of Some v \<Rightarrow> Some v | None \<Rightarrow> cfg k)"
  by (auto simp: load_descriptor_def descriptor_assigns_def dict_update_apply
      split: read_result.splits)

lemma load_descriptor_raises:
  "(\<exists>err. load_descriptor fs p cfg = Inl err) \<longleftrightarrow> descriptor_raises fs p"
  by (cases "open_json fs p")
     (simp_all add: load_descriptor_def descriptor_raises_def dict_update_raises)

lemma load_descriptor_total:
  "\<not> descriptor_raises fs p \<Longrightarrow> \<exists>c. load_descriptor fs p cfg = Inr c"
  using load_descriptor_raises[of fs p cfg] by (cases "load_descriptor fs p cfg") auto

lemma load_descriptor_keeps:
  "load_descriptor fs p cfg = Inr cfg' \<Longrightarrow> cfg k \<noteq> None \<Longrightarrow> cfg' k \<noteq> None"
  by (simp add: load_descriptor_apply split: option.splits)

lemma complete_defaults: "complete (sticker_defaults rt prefix stem)"
  by (simp add: complete_def sticker_defaults_def)

lemma complete_file: "complete cfg \<Longrightarrow> complete (cfg(KStr ''file'' \<mapsto> v))"
  by (simp add: complete_def)

lemma load_descriptor_complete:
  "load_descriptor fs p cfg = Inr cfg' \<Longrightarrow> complete cfg \<Longrightarrow> complete cfg'"
  unfolding complete_def using load_descriptor_keeps by blast

subsection \<open>The first loop keeps the records well formed\<close>

lemma well_formed_store:
  "well_formed d \<Longrightarrow> complete c \<Longrightarrow> well_formed (store k c d)"
  using set_store[of k c d] by (auto simp: well_formed_def distinct_store)

lemma well_formed_lookup:
  "well_formed d \<Longrightarrow>
     complete (case map_of d k of None \<Rightarrow> sticker_defaults rt prefix stem | Some c \<Rightarrow> c)"
  by (auto simp: well_formed_def complete_defaults split: option.splits dest!: map_of_SomeD)

lemma collect_entry_well_formed:
  assumes "collect_entry rt fs cat prefix e d = Inr d'" and "well_formed d"
  shows "well_formed d'"
proof -
  let ?c = "case map_of d (i_stem e) of None \<Rightarrow> sticker_defaults rt prefix (i_stem e) | Some c \<Rightarrow> c"
  have c: "complete ?c" using well_formed_lookup[OF assms(2)] .
  show ?thesis
    using assms c
    by (auto simp: collect_entry_def Let_def well_formed_store complete_file
        split: if_splits sum.splits dest: load_descriptor_complete)
qed

lemma collect_well_formed:
  "collect rt fs cat prefix es d = Inr d' \<Longrightarrow> well_formed d \<Longrightarrow> well_formed d'"
proof (induction es arbitrary: d)
  case Nil
  then show ?case by simp
next
  case (Cons e es)
  then show ?case
    by (auto split: sum.splits dest: collect_entry_well_formed)
qed

subsection \<open>The second loop registers one command per record\<close>

lemma sticker_command_complete:
  "complete cfg \<Longrightarrow> \<exists>item. sticker_command cfg = Inr item \<and> cfg (KStr ''name'') = Some (s_name item)
      \<and> cfg (KStr ''file'') = Some (s_file item)"
  by (auto simp: complete_def sticker_command_def bind_err_def getitem_def)

lemma sticker_command_Inr:
  "sticker_command cfg = Inr item \<Longrightarrow>
     getitem cfg ''name'' = Inr (s_name item) \<and> getitem cfg ''file'' = Inr (s_file item)"
  by (auto simp: sticker_command_def bind_err_def getitem_def split: option.splits)

lemma add_stickers_Inr:
  "add_stickers cfgs st names = (st', Inr names') \<Longrightarrow>
     \<exists>items. map sticker_command cfgs = map Inr items \<and> st' = stickers_added items st
        \<and> names' = names @ map s_name items"
proof (induction cfgs arbitrary: st names)
  case Nil
  then have "map sticker_command [] = map Inr [] \<and> st' = stickers_added [] st \<and> names' = names @ map s_name []"
    by (simp add: stickers_added_def)
  then show ?case by blast
next
  case (Cons cfg cfgs)
  from Cons.prems obtain nm item where nm: "getitem cfg ''name'' = Inr nm"
    and item: "sticker_command cfg = Inr item"
    and rest: "add_stickers cfgs (add_command (ItemAction item) st) (names @ [nm]) = (st', Inr names')"
    by (auto split: sum.splits)
  from Cons.IH[OF rest] obtain items where
    items: "map sticker_command cfgs = map Inr items"
      "st' = stickers_added items (add_command (ItemAction item) st)"
      "names' = (names @ [nm]) @ map s_name items"
    by blast
  have "nm = s_name item" using sticker_command_Inr[OF item] nm by simp
  with items item have "map sticker_command (cfg # cfgs) = map Inr (item # items)
      \<and> st' = stickers_added (item # items) st \<and> names' = names @ map s_name (item # items)"
    by (simp add: stickers_added_def add_command_def)
  then show ?case by blast
qed

lemma add_stickers_complete:
  "\<forall>c\<in>set cfgs. complete c \<Longrightarrow>
     \<exists>items. add_stickers cfgs st names = (stickers_added items st, Inr (names @ map s_name items))
        \<and> map sticker_command cfgs = map Inr items"
proof (induction cfgs arbitrary: st names)
  case Nil
  have "add_stickers [] st names = (stickers_added [] st, Inr (names @ map s_name []))
      \<and> map sticker_command [] = map Inr []"
    by (simp add: stickers_added_def)
  then show ?case by blast
next
  case (Cons cfg cfgs)
  then have "complete cfg" and rest: "\<forall>c\<in>set cfgs. complete c" by simp_all
  from sticker_command_complete[OF \<open>complete cfg\<close>] obtain item where
    item: "sticker_command cfg = Inr item" and nm: "cfg (KStr ''name'') = Some (s_name item)"
    by blast
  from Cons.IH[OF rest, of "add_command (ItemAction item) st" "names @ [s_name item]"]
  obtain items where
    items: "add_stickers cfgs (add_command (ItemAction item) st) (names @ [s_name item]) =
        (stickers_added items (add_command (ItemAction item) st),
         Inr ((names @ [s_name item]) @ map s_name items))"
      "map sticker_command cfgs = map Inr items"
    by blast
  have "add_stickers (cfg # cfgs) st names =
          (stickers_added (item # items) st, Inr (names @ map s_name (item # items)))
        \<and> map sticker_command (cfg # cfgs) = map Inr (item # items)"
    using item nm items by (simp add: getitem_def stickers_added_def add_command_def)
  then show ?case by blast
qed

section \<open>Items of a category\<close>

subsection \<open>A stem with a descriptor and no media file\<close>

lemma map_of_object_keys:
  "map_of (map (\<lambda>(s, v). (KStr s, Json v)) kvs) (KStr k) = map_option Json (map_of kvs k)"
  by (induction kvs) auto

text \<open>For a descriptor that is an object, the \<^verbatim>\<open>file\<close> it gives is the value of its \<^verbatim>\<open>file\<close> key.\<close>

lemma descriptor_file_object:
  assumes "open_json fs p = Decoded (JObj kvs)"
  shows "descriptor_file fs p =
     (case map_of (rev kvs) ''file'' of Some v \<Rightarrow> Json v | None \<Rightarrow> PyNone)"
proof -
  have "map_of (rev (map (\<lambda>(s, v). (KStr s, Json v)) kvs)) (KStr ''file'')
      = map_option Json (map_of (rev kvs) ''file'')"
    using map_of_object_keys[of "rev kvs" "''file''"] by (simp add: rev_map)
  with assms show ?thesis
    by (simp add: descriptor_file_def descriptor_assigns_def assigned_def split: option.splits)
qed

lemma load_descriptor_file:
  assumes "load_descriptor fs p cfg = Inr cfg'"
    and "cfg (KStr ''file'') = Some PyNone \<or> cfg (KStr ''file'') = Some (descriptor_file fs p)"
  shows "cfg' (KStr ''file'') = Some (descriptor_file fs p)"
  using assms(2) load_descriptor_apply[OF assms(1), of "KStr ''file''"]
  by (auto simp: descriptor_file_def split: option.splits)

lemma collect_entry_file:
  assumes "collect_entry rt fs cat prefix e d = Inr d'"
    and "file_settled fs cat s d"
    and "\<not> (i_is_file e \<and> i_stem e = s \<and> i_suffix e \<in> IMAGE_SUFFIXES)"
  shows "file_settled fs cat s d'"
proof (cases "i_is_file e \<and> i_suffix e \<in> IMAGE_AND_JSON_SUFFIXES")
  case False
  with assms(1) have "d' = d" by (auto simp: collect_entry_def)
  with assms(2) show ?thesis by simp
next
  case True
  let ?c = "case map_of d (i_stem e) of None \<Rightarrow> sticker_defaults rt prefix (i_stem e) | Some c \<Rightarrow> c"
  show ?thesis
  proof (cases "i_stem e = s")
    case False
    from assms(1) True obtain c where "d' = store (i_stem e) c d"
      by (auto simp: collect_entry_def Let_def split: if_splits sum.splits)
    with False assms(2) show ?thesis
      by (simp add: file_settled_def map_of_store)
  next
    case same: True
    with assms(3) True have json: "i_suffix e \<notin> IMAGE_SUFFIXES" by simp
    with assms(1) True obtain c where
      c: "load_descriptor fs [root, cat, i_stem e @ ''.json''] ?c = Inr c"
      and d': "d' = store (i_stem e) c d"
      by (auto simp: collect_entry_def Let_def split: sum.splits)
    have "?c (KStr ''file'') = Some PyNone \<or> ?c (KStr ''file'') = Some (descriptor_file fs [root, cat, i_stem e @ ''.json''])"
      using assms(2) same
      by (auto simp: file_settled_def sticker_defaults_def split: option.splits)
    from load_descriptor_file[OF c this] d' same show ?thesis
      by (simp add: file_settled_def map_of_store)
  qed
qed

lemma collect_file:
  "collect rt fs cat prefix es d = Inr d' \<Longrightarrow> file_settled fs cat s d \<Longrightarrow>
   \<forall>e\<in>set es. \<not> (i_is_file e \<and> i_stem e = s \<and> i_suffix e \<in> IMAGE_SUFFIXES) \<Longrightarrow>
   file_settled fs cat s d'"
proof (induction es arbitrary: d)
  case Nil
  then show ?case by simp
next
  case (Cons e es)
  from Cons.prems(1) obtain d1 where d1: "collect_entry rt fs cat prefix e d = Inr d1"
    and rest: "collect rt fs cat prefix es d1 = Inr d'"
    by (auto split: sum.splits)
  have "file_settled fs cat s d1"
    using collect_entry_file[OF d1 Cons.prems(2)] Cons.prems(3) by simp
  from Cons.IH[OF rest this] Cons.prems(3) show ?case by simp
qed

lemma keys_store_set: "fst ` set (store k c d) = insert k (fst ` set d)"
proof -
  have "set (map fst (store k c d)) = insert k (fst ` set d)"
    unfolding keys_store by auto
  then show ?thesis by simp
qed

lemma collect_entry_keys:
  assumes "collect_entry rt fs cat prefix e d = Inr d'"
  shows "fst ` set d \<subseteq> fst ` set d'"
    and "i_is_file e \<Longrightarrow> i_suffix e \<in> IMAGE_AND_JSON_SUFFIXES \<Longrightarrow> i_stem e \<in> fst ` set d'"
proof -
  have "d' = d \<or> (\<exists>c. d' = store (i_stem e) c d)"
    using assms by (auto simp: collect_entry_def Let_def split: if_splits sum.splits)
  then show "fst ` set d \<subseteq> fst ` set d'"
    using keys_store_set[of "i_stem e" _ d] by blast
  assume "i_is_file e" "i_suffix e \<in> IMAGE_AND_JSON_SUFFIXES"
  with assms have "\<exists>c. d' = store (i_stem e) c d"
    by (auto simp: collect_entry_def Let_def split: if_splits sum.splits)
  then show "i_stem e \<in> fst ` set d'"
    using keys_store_set[of "i_stem e" _ d] by blast
qed

lemma collect_keys:
  "collect rt fs cat prefix es d = Inr d' \<Longrightarrow>
     fst ` set d \<subseteq> fst ` set d' \<and>
     (\<forall>e\<in>set es. i_is_file e \<and> i_suffix e \<in> IMAGE_AND_JSON_SUFFIXES \<longrightarrow> i_stem e \<in> fst ` set d')"
proof (induction es arbitrary: d)
  case Nil
  then show ?case by simp
next
  case (Cons e es)
  from Cons.prems obtain d1 where d1: "collect_entry rt fs cat prefix e d = Inr d1"
    and rest: "collect rt fs cat prefix es d1 = Inr d'"
    by (auto split: sum.splits)
  from Cons.IH[OF rest] collect_entry_keys[OF d1] show ?case by auto
qed

lemma well_formed_empty: "well_formed []"
  by (simp add: well_formed_def)

lemma unique_record:
  assumes "distinct (map fst d)" and "s \<in> fst ` set d"
  shows "\<exists>before cfg after. d = before @ (s, cfg) # after
      \<and> s \<notin> fst ` set before \<and> s \<notin> fst ` set after \<and> map_of d s = Some cfg"
proof -
  from assms(2) obtain cfg where "(s, cfg) \<in> set d" by force
  then obtain before after where d: "d = before @ (s, cfg) # after"
    by (auto simp: in_set_conv_decomp)
  with assms(1) have out: "s \<notin> fst ` set before" "s \<notin> fst ` set after"
    by auto
  from assms(1) \<open>(s, cfg) \<in> set d\<close> have "map_of d s = Some cfg" by simp
  with d out show ?thesis by blast
qed

lemma complete_items:
  "\<forall>c\<in>set cfgs. complete c \<Longrightarrow> \<exists>items. map sticker_command cfgs = map Inr items"
proof (induction cfgs)
  case Nil
  then show ?case by simp
next
  case (Cons c cfgs)
  then obtain items where items: "map sticker_command cfgs = map Inr items" by auto
  from Cons.prems sticker_command_complete[of c] obtain item where "sticker_command c = Inr item"
    by auto
  with items have "map sticker_command (c # cfgs) = map Inr (item # items)" by simp
  then show ?case by blast
qed

text \<open>
  C10. In a category directory none of whose descriptors makes the merge raise, a stem
  that has a descriptor
  file and no media file still gets exactly one record, and \<^verbatim>\<open>_walk_category\<close> registers
  exactly one sticker command for it, at the record's place among the commands of the
  directory. The command's \<^verbatim>\<open>file\<close> is \<^verbatim>\<open>None\<close> unless the descriptor assigns the key
  \<^verbatim>\<open>file\<close>, whose value it then is.
\<close>

theorem descriptor_alone_registers_item:
  assumes e: "e \<in> set (r_listing cat)" "i_is_file e" "i_suffix e = ''.json''"
    and no_media: "\<forall>e'\<in>set (r_listing cat).
        \<not> (i_is_file e' \<and> i_stem e' = i_stem e \<and> i_suffix e' \<in> IMAGE_SUFFIXES)"
    and ok: "collect rt fs (r_name cat) prefix (r_listing cat) [] = Inr d"
  shows "\<exists>before cfg after items_b item items_a.
      d = before @ (i_stem e, cfg) # after
      \<and> i_stem e \<notin> fst ` set before \<and> i_stem e \<notin> fst ` set after
      \<and> map (sticker_command \<circ> snd) before = map Inr items_b
      \<and> sticker_command cfg = Inr item
      \<and> map (sticker_command \<circ> snd) after = map Inr items_a
      \<and> s_file item = descriptor_file fs [root, r_name cat, i_stem e @ ''.json'']
      \<and> walk_category rt fs cat prefix st =
          (stickers_added (items_b @ item # items_a) st,
           Inr (map s_name (items_b @ item # items_a)))"
proof -
  have wf: "well_formed d"
    using collect_well_formed[OF ok well_formed_empty] .
  have "i_suffix e \<in> IMAGE_AND_JSON_SUFFIXES"
    using e(3) by (simp add: IMAGE_AND_JSON_SUFFIXES_def)
  with collect_keys[OF ok] e have present: "i_stem e \<in> fst ` set d" by blast
  from wf have dist: "distinct (map fst d)" and compl: "\<forall>p\<in>set d. complete (snd p)"
    by (simp_all add: well_formed_def)
  from unique_record[OF dist present] obtain before cfg after where
    d: "d = before @ (i_stem e, cfg) # after"
    and out: "i_stem e \<notin> fst ` set before" "i_stem e \<notin> fst ` set after"
    and look: "map_of d (i_stem e) = Some cfg"
    by blast
  have "file_settled fs (r_name cat) (i_stem e) []"
    by (simp add: file_settled_def)
  from collect_file[OF ok this no_media] look
  have cfg_file: "cfg (KStr ''file'') = Some (descriptor_file fs [root, r_name cat, i_stem e @ ''.json''])"
    by (simp add: file_settled_def)
  from compl d have c_cfg: "complete cfg" and c_b: "\<forall>c\<in>set (map snd before). complete c"
    and c_a: "\<forall>c\<in>set (map snd after). complete c"
    by auto
  from sticker_command_complete[OF c_cfg] cfg_file obtain item where
    item: "sticker_command cfg = Inr item"
    and sf: "s_file item = descriptor_file fs [root, r_name cat, i_stem e @ ''.json'']"
    by auto
  from complete_items[OF c_b] obtain items_b where
    items_b: "map (sticker_command \<circ> snd) before = map Inr items_b" by auto
  from complete_items[OF c_a] obtain items_a where
    items_a: "map (sticker_command \<circ> snd) after = map Inr items_a" by auto
  have all: "map sticker_command (map snd d) = map Inr (items_b @ item # items_a)"
    using d item items_b items_a by simp
  from compl have "\<forall>c\<in>set (map snd d). complete c" by simp
  from add_stickers_complete[OF this, of st "[]"] obtain items where
    run: "add_stickers (map snd d) st [] = (stickers_added items st, Inr ([] @ map s_name items))"
    and items: "map sticker_command (map snd d) = map Inr items"
    by blast
  have "items = items_b @ item # items_a"
    using all[unfolded items] by (simp only: inj_map_eq_map[OF inj_Inr])
  with run ok have "walk_category rt fs cat prefix st =
          (stickers_added (items_b @ item # items_a) st,
           Inr (map s_name (items_b @ item # items_a)))"
    by (simp add: walk_category_def)
  with d out items_b item items_a sf show ?thesis by blast
qed


theorem descriptor_alone_registers_item_witness:
  "commands (fst (walk_category (ascii_runtime []) bark_only good_boy (PyStr []) empty_cog)) =
     [ItemAction \<lparr>s_name = PyStr ''Bark'', s_file = PyNone, s_aliases = Json (JArr []),
        s_message = PyStr ''Grr'', s_hidden = Json (JBool True)\<rparr>,
      ItemAction \<lparr>s_name = PyStr ''Woof'',
        s_file = PathRef [''stickers'', ''good_boy'', ''woof.png''], s_aliases = Json (JArr []),
        s_message = PyStr [], s_hidden = Json (JBool True)\<rparr>]
   \<and> (\<exists>before cfg after items_b item items_a.
        projr (collect (ascii_runtime []) bark_only (r_name good_boy) (PyStr []) (r_listing good_boy) [])
          = before @ (i_stem (file_entry ''bark'' ''.json''), cfg) # after
        \<and> i_stem (file_entry ''bark'' ''.json'') \<notin> fst ` set before
        \<and> i_stem (file_entry ''bark'' ''.json'') \<notin> fst ` set after
        \<and> map (sticker_command \<circ> snd) before = map Inr items_b
        \<and> sticker_command cfg = Inr item
        \<and> map (sticker_command \<circ> snd) after = map Inr items_a
        \<and> s_file item = descriptor_file bark_only
              [root, r_name good_boy, i_stem (file_entry ''bark'' ''.json'') @ ''.json'']
        \<and> walk_category (ascii_runtime []) bark_only good_boy (PyStr []) empty_cog =
            (stickers_added (items_b @ item # items_a) empty_cog,
             Inr (map s_name (items_b @ item # items_a))))"
proof
  show "commands (fst (walk_category (ascii_runtime []) bark_only good_boy (PyStr []) empty_cog)) =
     [ItemAction \<lparr>s_name = PyStr ''Bark'', s_file = PyNone, s_aliases = Json (JArr []),
        s_message = PyStr ''Grr'', s_hidden = Json (JBool True)\<rparr>,
      ItemAction \<lparr>s_name = PyStr ''Woof'',
        s_file = PathRef [''stickers'', ''good_boy'', ''woof.png''], s_aliases = Json (JArr []),
        s_message = PyStr [], s_hidden = Json (JBool True)\<rparr>]"
    by (simp add: bark_only_def good_boy_def empty_cog_def example_defs)
  have listed: "file_entry ''bark'' ''.json'' \<in> set (r_listing good_boy)"
    and is_file: "i_is_file (file_entry ''bark'' ''.json'')"
    and suffix: "i_suffix (file_entry ''bark'' ''.json'') = ''.json''"
    by (simp_all add: good_boy_def dir_entry_def file_entry_def)
  have no_media: "\<forall>e'\<in>set (r_listing good_boy).
      \<not> (i_is_file e' \<and> i_stem e' = i_stem (file_entry ''bark'' ''.json'')
          \<and> i_suffix e' \<in> IMAGE_SUFFIXES)"
    by (simp add: good_boy_def dir_entry_def file_entry_def IMAGE_SUFFIXES_def)
  have ok: "collect (ascii_runtime []) bark_only (r_name good_boy) (PyStr []) (r_listing good_boy) []
      = Inr (projr (collect (ascii_runtime []) bark_only (r_name good_boy) (PyStr [])
                (r_listing good_boy) []))"
    by (simp add: bark_only_def good_boy_def example_defs)
  show "\<exists>before cfg after items_b item items_a.
        projr (collect (ascii_runtime []) bark_only (r_name good_boy) (PyStr []) (r_listing good_boy) [])
          = before @ (i_stem (file_entry ''bark'' ''.json''), cfg) # after
        \<and> i_stem (file_entry ''bark'' ''.json'') \<notin> fst ` set before
        \<and> i_stem (file_entry ''bark'' ''.json'') \<notin> fst ` set after
        \<and> map (sticker_command \<circ> snd) before = map Inr items_b
        \<and> sticker_command cfg = Inr item
        \<and> map (sticker_command \<circ> snd) after = map Inr items_a
        \<and> s_file item = descriptor_file bark_only
              [root, r_name good_boy, i_stem (file_entry ''bark'' ''.json'') @ ''.json'']
        \<and> walk_category (ascii_runtime []) bark_only good_boy (PyStr []) empty_cog =
            (stickers_added (items_b @ item # items_a) empty_cog,
             Inr (map s_name (items_b @ item # items_a)))"
    by (rule descriptor_alone_registers_item[OF listed is_file suffix no_media ok])
qed

subsection \<open>The names a category lists\<close>

lemma category_command_names:
  assumes "category_command (cfg(KStr ''sticker_names'' \<mapsto> PyList names)) = Inr cmd"
  shows "c_sticker_names cmd = names"
  using assms
  by (auto simp: category_command_def bind_err_def getitem_def split: option.splits sum.splits)

lemma walk_category_Inr:
  assumes "walk_category rt fs cat prefix st = (st', Inr names)"
  shows "\<exists>d items. collect rt fs (r_name cat) prefix (r_listing cat) [] = Inr d
      \<and> distinct (map fst d) \<and> map (sticker_command \<circ> snd) d = map Inr items
      \<and> st' = stickers_added items st \<and> names = map s_name items"
proof -
  from assms obtain d where d: "collect rt fs (r_name cat) prefix (r_listing cat) [] = Inr d"
    and run: "add_stickers (map snd d) st [] = (st', Inr names)"
    by (auto simp: walk_category_def split: sum.splits)
  from add_stickers_Inr[OF run] obtain items where
    items: "map sticker_command (map snd d) = map Inr items" "st' = stickers_added items st"
      "names = [] @ map s_name items"
    by blast
  have "distinct (map fst d)"
    using collect_well_formed[OF d well_formed_empty] by (simp add: well_formed_def)
  with d items show ?thesis by auto
qed

lemma walk_directory_None:
  assumes "walk_directory rt fs cat st = (st', None)"
  shows "\<exists>g. category_listing rt fs cat g \<and> commands st' = commands st @ group_commands g"
proof -
  let ?cfg1 = "find_thumbnail fs (r_stem cat) (suffix_iter rt) (category_defaults rt (r_stem cat))"
  from assms obtain cfg2 category_name prefix st2 names cmd where
    wc: "walk_category rt fs cat prefix (st\<lparr>category_names := category_names st @ [category_name]\<rparr>)
           = (st2, Inr names)"
    and cmd: "category_command (cfg2(KStr ''sticker_names'' \<mapsto> PyList names)) = Inr cmd"
    and st': "st' = add_command (CategoryAction cmd)
          (st2\<lparr>category_sticker_names := category_sticker_names st2 @ [(category_name, names)]\<rparr>)"
    by (auto simp: walk_directory_def Let_def split: sum.splits prod.splits if_splits)
  from walk_category_Inr[OF wc] obtain d items where
    d: "collect rt fs (r_name cat) prefix (r_listing cat) [] = Inr d" "distinct (map fst d)"
      "map (sticker_command \<circ> snd) d = map Inr items"
    and st2: "st2 = stickers_added items (st\<lparr>category_names := category_names st @ [category_name]\<rparr>)"
    and names: "names = map s_name items"
    by blast
  have "c_sticker_names cmd = map s_name items"
    using category_command_names[OF cmd] names by simp
  with d have "category_listing rt fs cat (items, cmd)"
    unfolding category_listing_def by auto
  moreover have "commands st' = commands st @ group_commands (items, cmd)"
    using st' st2 by (simp add: add_command_def stickers_added_def group_commands_def)
  ultimately show ?thesis by blast
qed

lemma walk_entries_None:
  "walk_entries rt fs cats st = (st', None) \<Longrightarrow>
     \<exists>groups. commands st' = commands st @ concat (map group_commands groups)
        \<and> list_all2 (category_listing rt fs) (filter r_is_dir cats) groups"
proof (induction cats arbitrary: st)
  case Nil
  then have "commands st' = commands st @ concat (map group_commands [])
      \<and> list_all2 (category_listing rt fs) (filter r_is_dir []) []"
    by simp
  then show ?case by blast
next
  case (Cons cat cats)
  show ?case
  proof (cases "r_is_dir cat")
    case False
    with Cons.prems have "walk_entries rt fs cats st = (st', None)" by simp
    from Cons.IH[OF this] False show ?thesis by simp
  next
    case True
    with Cons.prems obtain st1 where one: "walk_directory rt fs cat st = (st1, None)"
      and rest: "walk_entries rt fs cats st1 = (st', None)"
      by (auto split: prod.splits option.splits)
    from walk_directory_None[OF one] obtain g where
      g: "category_listing rt fs cat g" "commands st1 = commands st @ group_commands g"
      by blast
    from Cons.IH[OF rest] obtain groups where
      groups: "commands st' = commands st1 @ concat (map group_commands groups)"
        "list_all2 (category_listing rt fs) (filter r_is_dir cats) groups"
      by blast
    from g groups True
    have "commands st' = commands st @ concat (map group_commands (g # groups))
        \<and> list_all2 (category_listing rt fs) (filter r_is_dir (cat # cats)) (g # groups)"
      by simp
    then show ?thesis by blast
  qed
qed

text \<open>
  C7. After a build that completes, the commands added to the bot are, category by
  category in the order of the root's enumeration, the sticker commands of the category
  followed by the category command, and the category's \<^verbatim>\<open>sticker_names\<close> is exactly the
  list of the names of those sticker commands, in the order the records were processed:
  one name per record, one record per stem, so a name occurs twice only when two
  records resolved to the same name.
\<close>

theorem item_names_are_item_commands:
  assumes "walk_root rt fs before = (st, None)"
  shows "\<exists>groups. commands st = before @ concat (map group_commands groups)
           \<and> list_all2 (category_listing rt fs) (filter r_is_dir (iterdir_root fs)) groups"
  using walk_entries_None[OF assms[unfolded walk_root_def]] by simp

theorem item_names_are_item_commands_witness:
  "snd (walk_root (ascii_runtime []) bark_only []) = None
   \<and> (\<exists>groups. commands (fst (walk_root (ascii_runtime []) bark_only [])) =
          [] @ concat (map group_commands groups)
        \<and> list_all2 (category_listing (ascii_runtime []) bark_only)
             (filter r_is_dir (iterdir_root bark_only)) groups)"
proof
  show completed: "snd (walk_root (ascii_runtime []) bark_only []) = None"
    by (simp add: bark_only_def example_defs)
  then have "walk_root (ascii_runtime []) bark_only [] =
      (fst (walk_root (ascii_runtime []) bark_only []), None)"
    by (simp add: prod_eq_iff)
  then show "\<exists>groups. commands (fst (walk_root (ascii_runtime []) bark_only [])) =
          [] @ concat (map group_commands groups)
        \<and> list_all2 (category_listing (ascii_runtime []) bark_only)
             (filter r_is_dir (iterdir_root bark_only)) groups"
    by (rule item_names_are_item_commands)
qed

section \<open>The order of observation within a stem\<close>

text \<open>
  A media file and a descriptor of one stem, observed in either order, give one record
  under the stem. The two records agree on every key but \<^verbatim>\<open>file\<close>: observed last, the
  media file sets \<^verbatim>\<open>file\<close> to its path; observed first, it leaves \<^verbatim>\<open>file\<close> to the
  descriptor when the document assigns that key.
\<close>

lemma stem_pair_either_order:
  assumes m: "i_is_file m" "i_suffix m \<in> IMAGE_SUFFIXES" "i_stem m = s"
    and j: "i_is_file j" "i_suffix j = ''.json''" "i_stem j = s"
    and doc: "\<not> descriptor_raises fs [root, cat, s @ ''.json'']"
  shows "\<exists>c1 c2. collect rt fs cat prefix [m, j] [] = Inr [(s, c1)]
      \<and> collect rt fs cat prefix [j, m] [] = Inr [(s, c2)]
      \<and> (\<forall>k. k \<noteq> KStr ''file'' \<longrightarrow> c1 k = c2 k)
      \<and> c2 (KStr ''file'') = Some (PathRef [root, cat, i_name m])
      \<and> c1 (KStr ''file'') =
          (case descriptor_assigns fs [root, cat, s @ ''.json''] (KStr ''file'') of
             Some v \<Rightarrow> Some v
           | None \<Rightarrow> Some (PathRef [root, cat, i_name m]))"
proof -
  let ?p = "PathRef [root, cat, i_name m]"
  let ?d = "sticker_defaults rt prefix s"
  let ?json = "[root, cat, s @ ''.json'']"
  have jm: "i_suffix j \<in> IMAGE_AND_JSON_SUFFIXES" "i_suffix j \<notin> IMAGE_SUFFIXES"
    and mm: "i_suffix m \<in> IMAGE_AND_JSON_SUFFIXES"
    using j(2) m(2) by (simp_all add: IMAGE_AND_JSON_SUFFIXES_def IMAGE_SUFFIXES_def)
  from load_descriptor_total[OF doc] obtain c1 where
    c1: "load_descriptor fs ?json (?d(KStr ''file'' \<mapsto> ?p)) = Inr c1"
    by blast
  from load_descriptor_total[OF doc] obtain l where l: "load_descriptor fs ?json ?d = Inr l"
    by blast
  have first: "collect rt fs cat prefix [m, j] [] = Inr [(s, c1)]"
    using m j jm mm c1 by (simp add: collect_entry_def Let_def)
  have second: "collect rt fs cat prefix [j, m] [] = Inr [(s, l(KStr ''file'' \<mapsto> ?p))]"
    using m j jm mm l by (simp add: collect_entry_def Let_def)
  have off: "\<forall>k. k \<noteq> KStr ''file'' \<longrightarrow> c1 k = (l(KStr ''file'' \<mapsto> ?p)) k"
    using load_descriptor_apply[OF c1] load_descriptor_apply[OF l]
    by (auto split: option.splits)
  have on: "c1 (KStr ''file'') =
      (case descriptor_assigns fs ?json (KStr ''file'') of Some v \<Rightarrow> Some v | None \<Rightarrow> Some ?p)"
    using load_descriptor_apply[OF c1, of "KStr ''file''"]
    by (simp split: option.splits)
  from first second off on show ?thesis by simp
qed

text \<open>
  C1. A category directory holds \<^verbatim>\<open>woof.png\<close> and \<^verbatim>\<open>woof.json\<close>, and the descriptor is
  \<^verbatim>\<open>{"file": "other.png"}\<close>. Both enumeration orders give one record and one sticker
  command for the stem, but its \<^verbatim>\<open>file\<close> is the descriptor's value when the media file
  is observed first and the media path when the descriptor is observed first: whichever
  is observed last wins.
\<close>

theorem stem_merge_depends_on_order:
  "item_files (commands (fst (walk_root (ascii_runtime []) media_first []))) =
     [(PyStr ''Woof'', PyStr ''other.png'')]
   \<and> item_files (commands (fst (walk_root (ascii_runtime []) descriptor_first []))) =
     [(PyStr ''Woof'', PathRef [''stickers'', ''good_boy'', ''woof.png''])]"
  by (simp add: media_first_def descriptor_first_def override_doc_def item_files_def example_defs)

section \<open>Reading a descriptor\<close>

lemma collect_entry_raises:
  assumes "i_is_file e" "i_suffix e = ''.json''"
    and "descriptor_raises fs [root, cat, i_stem e @ ''.json'']"
  shows "\<exists>err. collect_entry rt fs cat prefix e d = Inl err"
proof -
  let ?c = "case map_of d (i_stem e) of None \<Rightarrow> sticker_defaults rt prefix (i_stem e) | Some c \<Rightarrow> c"
  from assms(3) obtain err where "load_descriptor fs [root, cat, i_stem e @ ''.json''] ?c = Inl err"
    using load_descriptor_raises[of fs "[root, cat, i_stem e @ ''.json'']" ?c] by blast
  with assms(1,2) have "collect_entry rt fs cat prefix e d = Inl err"
    by (simp add: collect_entry_def Let_def IMAGE_AND_JSON_SUFFIXES_def IMAGE_SUFFIXES_def)
  then show ?thesis by blast
qed

lemma collect_raises:
  assumes "e \<in> set es" "i_is_file e" "i_suffix e = ''.json''"
    and "descriptor_raises fs [root, cat, i_stem e @ ''.json'']"
  shows "\<exists>err. collect rt fs cat prefix es d = Inl err"
  using assms(1)
proof (induction es arbitrary: d)
  case Nil
  then show ?case by simp
next
  case (Cons x es)
  show ?case
  proof (cases "collect_entry rt fs cat prefix x d")
    case (Inl err)
    then show ?thesis by simp
  next
    case (Inr d1)
    with collect_entry_raises[OF assms(2,3,4), of rt prefix d] have "x \<noteq> e" by auto
    with Cons.prems have "e \<in> set es" by simp
    from Cons.IH[OF this, of d1] Inr show ?thesis by simp
  qed
qed

lemma find_thumbnail_other: "k \<noteq> KStr ''file'' \<Longrightarrow> find_thumbnail fs stem exts cfg k = cfg k"
  by (induction exts) auto

lemma walk_entries_append:
  "walk_entries rt fs (xs @ ys) st =
     (case walk_entries rt fs xs st of
        (st', None) \<Rightarrow> walk_entries rt fs ys st'
      | (st', Some err) \<Rightarrow> (st', Some err))"
  by (induction xs arbitrary: st) (auto split: prod.splits option.splits)

lemma walk_directory_category_raises:
  assumes "descriptor_raises fs [root, r_stem cat @ ''.json'']"
  shows "\<exists>err. walk_directory rt fs cat st = (st, Some err)"
proof -
  let ?cfg1 = "find_thumbnail fs (r_stem cat) (suffix_iter rt) (category_defaults rt (r_stem cat))"
  from assms obtain err where "load_descriptor fs [root, r_stem cat @ ''.json''] ?cfg1 = Inl err"
    using load_descriptor_raises[of fs "[root, r_stem cat @ ''.json'']" ?cfg1] by blast
  then have "walk_directory rt fs cat st = (st, Some err)"
    by (simp add: walk_directory_def)
  then show ?thesis by blast
qed

lemma walk_directory_item_raises:
  assumes "\<not> descriptor_raises fs [root, r_stem cat @ ''.json'']"
    and "e \<in> set (r_listing cat)" "i_is_file e" "i_suffix e = ''.json''"
    and "descriptor_raises fs [root, r_name cat, i_stem e @ ''.json'']"
  shows "\<exists>st' err. walk_directory rt fs cat st = (st', Some err) \<and> commands st' = commands st"
proof -
  let ?cfg1 = "find_thumbnail fs (r_stem cat) (suffix_iter rt) (category_defaults rt (r_stem cat))"
  from load_descriptor_total[OF assms(1)] obtain cfg2 where
    cfg2: "load_descriptor fs [root, r_stem cat @ ''.json''] ?cfg1 = Inr cfg2"
    by blast
  have "?cfg1 (KStr ''name'') \<noteq> None" "?cfg1 (KStr ''prefix'') \<noteq> None"
    by (simp_all add: find_thumbnail_other category_defaults_def)
  then have "cfg2 (KStr ''name'') \<noteq> None" "cfg2 (KStr ''prefix'') \<noteq> None"
    using load_descriptor_keeps[OF cfg2] by blast+
  then obtain nm pf where nm: "getitem cfg2 ''name'' = Inr nm" and pf: "getitem cfg2 ''prefix'' = Inr pf"
    by (auto simp: getitem_def)
  let ?st1 = "st\<lparr>category_names := category_names st @ [nm]\<rparr>"
  from collect_raises[OF assms(2,3,4,5), of rt pf "[]"] obtain err where
    "collect rt fs (r_name cat) pf (r_listing cat) [] = Inl err"
    by blast
  then have "walk_category rt fs cat pf ?st1 = (?st1, Inl err)"
    by (simp add: walk_category_def)
  with cfg2 nm pf have "walk_directory rt fs cat st = (?st1, Some err)"
    by (simp add: walk_directory_def Let_def)
  then show ?thesis by simp
qed

text \<open>
  C2, as the code has it. A descriptor that cannot be opened or read (an \<^verbatim>\<open>IOError\<close>)
  leaves the configuration as it was, silently, and so does a document that assigns
  nothing (the empty object, the empty list, the empty string). The merge raises when
  the content does not parse (ValueError), and also when it parses to a value that
  \<^verbatim>\<open>update\<close> does not accept: a number, a boolean or \<^verbatim>\<open>null\<close> (TypeError), a string that is
  not empty (ValueError), or a list with an element that is not a pair with a hashable
  key; an object never makes it raise, and it raises in no other case. The raise ends
  the build where it happens: for a category descriptor nothing of that category is
  added and the state is the one left by the categories walked before it; for a sticker
  descriptor no command of that category is added. What was added to the bot for the
  categories walked before is not undone.
\<close>

theorem descriptor_merge_outcomes:
  "(open_json fs p = Unreadable \<longrightarrow> load_descriptor fs p cfg = Inr cfg)
   \<and> (open_json fs p = Decoded (JObj []) \<or> open_json fs p = Decoded (JArr [])
        \<or> open_json fs p = Decoded (JStr [])
      \<longrightarrow> load_descriptor fs p cfg = Inr cfg)
   \<and> (open_json fs p = Malformed \<longrightarrow> load_descriptor fs p cfg = Inl ValueError)
   \<and> (open_json fs p = Decoded JNull \<or> (\<exists>b. open_json fs p = Decoded (JBool b))
        \<or> (\<exists>n. open_json fs p = Decoded (JNum n))
      \<longrightarrow> load_descriptor fs p cfg = Inl TypeError)
   \<and> ((\<exists>c s. open_json fs p = Decoded (JStr (c # s)))
      \<longrightarrow> load_descriptor fs p cfg = Inl ValueError)
   \<and> ((\<exists>kvs. open_json fs p = Decoded (JObj kvs))
      \<longrightarrow> (\<exists>cfg'. load_descriptor fs p cfg = Inr cfg'))
   \<and> ((\<exists>err. load_descriptor fs p cfg = Inl err) \<longleftrightarrow> descriptor_raises fs p)
   \<and> (walk_entries rt fs before st = (st', None) \<and> r_is_dir cat
        \<and> descriptor_raises fs [root, r_stem cat @ ''.json'']
      \<longrightarrow> (\<exists>err. walk_entries rt fs (before @ cat # after) st = (st', Some err)))
   \<and> (walk_entries rt fs before st = (st', None) \<and> r_is_dir cat
        \<and> \<not> descriptor_raises fs [root, r_stem cat @ ''.json'']
        \<and> e \<in> set (r_listing cat) \<and> i_is_file e \<and> i_suffix e = ''.json''
        \<and> descriptor_raises fs [root, r_name cat, i_stem e @ ''.json'']
      \<longrightarrow> (\<exists>st'' err. walk_entries rt fs (before @ cat # after) st = (st'', Some err)
             \<and> commands st'' = commands st'))"
proof (intro conjI impI)
  assume "open_json fs p = Unreadable"
  then show "load_descriptor fs p cfg = Inr cfg" by (simp add: load_descriptor_def)
next
  assume "open_json fs p = Decoded (JObj []) \<or> open_json fs p = Decoded (JArr [])
        \<or> open_json fs p = Decoded (JStr [])"
  then show "load_descriptor fs p cfg = Inr cfg"
    by (auto simp: load_descriptor_def dict_update_def update_object_def)
next
  assume "open_json fs p = Malformed"
  then show "load_descriptor fs p cfg = Inl ValueError" by (simp add: load_descriptor_def)
next
  assume "open_json fs p = Decoded JNull \<or> (\<exists>b. open_json fs p = Decoded (JBool b))
        \<or> (\<exists>n. open_json fs p = Decoded (JNum n))"
  then show "load_descriptor fs p cfg = Inl TypeError"
    by (auto simp: load_descriptor_def dict_update_def)
next
  assume "\<exists>c s. open_json fs p = Decoded (JStr (c # s))"
  then show "load_descriptor fs p cfg = Inl ValueError"
    by (auto simp: load_descriptor_def dict_update_def update_pair_def)
next
  assume "\<exists>kvs. open_json fs p = Decoded (JObj kvs)"
  then show "\<exists>cfg'. load_descriptor fs p cfg = Inr cfg'"
    by (auto simp: load_descriptor_def dict_update_def)
next
  show "(\<exists>err. load_descriptor fs p cfg = Inl err) \<longleftrightarrow> descriptor_raises fs p"
    by (rule load_descriptor_raises)
next
  assume a: "walk_entries rt fs before st = (st', None) \<and> r_is_dir cat
        \<and> descriptor_raises fs [root, r_stem cat @ ''.json'']"
  then obtain err where "walk_directory rt fs cat st' = (st', Some err)"
    using walk_directory_category_raises[of fs cat rt st'] by blast
  with a show "\<exists>err. walk_entries rt fs (before @ cat # after) st = (st', Some err)"
    by (simp add: walk_entries_append)
next
  assume a: "walk_entries rt fs before st = (st', None) \<and> r_is_dir cat
        \<and> \<not> descriptor_raises fs [root, r_stem cat @ ''.json'']
        \<and> e \<in> set (r_listing cat) \<and> i_is_file e \<and> i_suffix e = ''.json''
        \<and> descriptor_raises fs [root, r_name cat, i_stem e @ ''.json'']"
  then obtain st1 err where "walk_directory rt fs cat st' = (st1, Some err)"
    "commands st1 = commands st'"
    using walk_directory_item_raises[of fs cat e rt st'] by blast
  with a show "\<exists>st'' err. walk_entries rt fs (before @ cat # after) st = (st'', Some err)
             \<and> commands st'' = commands st'"
    by (simp add: walk_entries_append)
qed

theorem descriptor_merge_outcomes_witness:
  "load_descriptor broken_second [''stickers'', ''cats.json''] (category_defaults (ascii_runtime []) ''cats'')
     = Inr (category_defaults (ascii_runtime []) ''cats'')
   \<and> load_descriptor broken_second [''stickers'', ''dogs.json''] (category_defaults (ascii_runtime []) ''dogs'')
     = Inr (category_defaults (ascii_runtime []) ''dogs'')
   \<and> load_descriptor broken_second [''stickers'', ''pack.json''] (category_defaults (ascii_runtime []) ''pack'')
     = Inl ValueError
   \<and> load_descriptor broken_second [''stickers'', ''five.json''] (category_defaults (ascii_runtime []) ''five'')
     = Inl TypeError
   \<and> load_descriptor broken_second [''stickers'', ''text.json''] (category_defaults (ascii_runtime []) ''text'')
     = Inl ValueError
   \<and> descriptor_raises broken_second [''stickers'', ''five.json'']
   \<and> (\<exists>err. walk_entries (ascii_runtime []) broken_second
          ([dir_entry ''dogs'' [file_entry ''woof'' ''.png'']] @ dir_entry ''pack'' [] # []) empty_cog
         = (fst (walk_entries (ascii_runtime []) broken_second
                   [dir_entry ''dogs'' [file_entry ''woof'' ''.png'']] empty_cog), Some err))
   \<and> (\<exists>st'' err. walk_entries (ascii_runtime []) broken_item
          ([dir_entry ''dogs'' [file_entry ''woof'' ''.png'']]
             @ dir_entry ''pack'' [file_entry ''bad'' ''.json''] # []) empty_cog
          = (st'', Some err)
        \<and> commands st'' = commands (fst (walk_entries (ascii_runtime []) broken_item
                 [dir_entry ''dogs'' [file_entry ''woof'' ''.png'']] empty_cog)))"
proof -
  let ?rt = "ascii_runtime []"
  let ?dogs = "[dir_entry ''dogs'' [file_entry ''woof'' ''.png'']]"
  let ?st2 = "fst (walk_entries ?rt broken_second ?dogs empty_cog)"
  let ?st3 = "fst (walk_entries ?rt broken_item ?dogs empty_cog)"
  note at_path = descriptor_merge_outcomes[where fs = broken_second
      and rt = ?rt and before = ?dogs and st = empty_cog and st' = ?st2
      and cat = "dir_entry ''pack'' []" and after = "[]"
      and e = "file_entry ''bad'' ''.json''"]
  note item_level = descriptor_merge_outcomes[where fs = broken_item
      and p = "[''stickers'', ''pack.json'']" and cfg = "category_defaults ?rt ''pack''"
      and rt = ?rt and before = ?dogs and st = empty_cog and st' = ?st3
      and cat = "dir_entry ''pack'' [file_entry ''bad'' ''.json'']" and after = "[]"
      and e = "file_entry ''bad'' ''.json''"]
  have unreadable: "open_json broken_second [''stickers'', ''cats.json''] = Unreadable"
    and empty: "open_json broken_second [''stickers'', ''dogs.json''] = Decoded (JObj [])"
    and malformed: "open_json broken_second [''stickers'', ''pack.json''] = Malformed"
    and number: "open_json broken_second [''stickers'', ''five.json''] = Decoded (JNum 5)"
    and string_doc: "open_json broken_second [''stickers'', ''text.json''] = Decoded (JStr (CHR ''a'' # ''b''))"
    by (simp_all add: broken_second_def sample_docs_def)
  have walked2: "walk_entries ?rt broken_second ?dogs empty_cog = (?st2, None)"
    by (simp add: prod_eq_iff broken_second_def sample_docs_def empty_cog_def example_defs)
  have walked3: "walk_entries ?rt broken_item ?dogs empty_cog = (?st3, None)"
    by (simp add: prod_eq_iff broken_item_def empty_cog_def example_defs)
  have pack2: "r_is_dir (dir_entry ''pack'' [])
      \<and> descriptor_raises broken_second [root, r_stem (dir_entry ''pack'' []) @ ''.json'']"
    by (simp add: broken_second_def sample_docs_def dir_entry_def root_def descriptor_raises_def)
  have pack3: "r_is_dir (dir_entry ''pack'' [file_entry ''bad'' ''.json''])
      \<and> \<not> descriptor_raises broken_item
          [root, r_stem (dir_entry ''pack'' [file_entry ''bad'' ''.json'']) @ ''.json'']
      \<and> file_entry ''bad'' ''.json'' \<in> set (r_listing (dir_entry ''pack'' [file_entry ''bad'' ''.json'']))
      \<and> i_is_file (file_entry ''bad'' ''.json'') \<and> i_suffix (file_entry ''bad'' ''.json'') = ''.json''
      \<and> descriptor_raises broken_item
          [root, r_name (dir_entry ''pack'' [file_entry ''bad'' ''.json'']),
           i_stem (file_entry ''bad'' ''.json'') @ ''.json'']"
    by (simp add: broken_item_def dir_entry_def file_entry_def root_def descriptor_raises_def)
  from at_path[where p = "[''stickers'', ''cats.json'']" and cfg = "category_defaults ?rt ''cats''"]
    unreadable
  have c1: "load_descriptor broken_second [''stickers'', ''cats.json''] (category_defaults ?rt ''cats'')
     = Inr (category_defaults ?rt ''cats'')"
    by blast
  from at_path[where p = "[''stickers'', ''dogs.json'']" and cfg = "category_defaults ?rt ''dogs''"]
    empty
  have c2: "load_descriptor broken_second [''stickers'', ''dogs.json''] (category_defaults ?rt ''dogs'')
     = Inr (category_defaults ?rt ''dogs'')"
    by blast
  from at_path[where p = "[''stickers'', ''pack.json'']" and cfg = "category_defaults ?rt ''pack''"]
    malformed
  have c3: "load_descriptor broken_second [''stickers'', ''pack.json''] (category_defaults ?rt ''pack'')
     = Inl ValueError"
    by blast
  from at_path[where p = "[''stickers'', ''five.json'']" and cfg = "category_defaults ?rt ''five''"]
    number
  have c4: "load_descriptor broken_second [''stickers'', ''five.json''] (category_defaults ?rt ''five'')
     = Inl TypeError"
    by blast
  from at_path[where p = "[''stickers'', ''text.json'']" and cfg = "category_defaults ?rt ''text''"]
    string_doc
  have c5: "load_descriptor broken_second [''stickers'', ''text.json''] (category_defaults ?rt ''text'')
     = Inl ValueError"
    by blast
  from at_path[where p = "[''stickers'', ''five.json'']" and cfg = "category_defaults ?rt ''five''"]
    c4
  have c6: "descriptor_raises broken_second [''stickers'', ''five.json'']"
    by blast
  from at_path[where p = "[''stickers'', ''pack.json'']" and cfg = "category_defaults ?rt ''pack''"]
    walked2 pack2
  have c7: "\<exists>err. walk_entries ?rt broken_second (?dogs @ dir_entry ''pack'' [] # []) empty_cog
       = (?st2, Some err)"
    by blast
  from item_level walked3 pack3
  have c8: "\<exists>st'' err. walk_entries ?rt broken_item
          (?dogs @ dir_entry ''pack'' [file_entry ''bad'' ''.json''] # []) empty_cog
          = (st'', Some err) \<and> commands st'' = commands ?st3"
    by blast
  from c1 c2 c3 c4 c5 c6 c7 c8 show ?thesis by blast
qed

text \<open>
  The claim as the spec states it fails three times. The descriptor of \<^verbatim>\<open>dogs\<close> exists
  and parses (it is the empty object), and the merge returns the defaults unchanged all
  the same. The descriptor \<^verbatim>\<open>five.json\<close> parses, to the number 5, and the build of
  \<^verbatim>\<open>dogs\<close> and \<^verbatim>\<open>five\<close> raises a TypeError. And the build of \<^verbatim>\<open>dogs\<close> and \<^verbatim>\<open>pack\<close> raises
  at \<^verbatim>\<open>pack.json\<close> after the sticker command of \<^verbatim>\<open>dogs\<close> was added to the bot.
\<close>

theorem descriptor_merge_counterexample:
  "open_json broken_second [''stickers'', ''dogs.json''] = Decoded (JObj [])
   \<and> load_descriptor broken_second [''stickers'', ''dogs.json''] (category_defaults (ascii_runtime []) ''dogs'')
       = Inr (category_defaults (ascii_runtime []) ''dogs'')
   \<and> open_json scalar_second [''stickers'', ''five.json''] = Decoded (JNum 5)
   \<and> snd (walk_root (ascii_runtime []) scalar_second []) = Some TypeError
   \<and> snd (walk_root (ascii_runtime []) broken_second []) = Some ValueError
   \<and> item_files (commands (fst (walk_root (ascii_runtime []) broken_second []))) =
       [(PyStr ''Woof'', PathRef [''stickers'', ''dogs'', ''woof.png''])]"
  by (simp add: broken_second_def scalar_second_def sample_docs_def item_files_def example_defs)

section \<open>Two builds of one snapshot\<close>

lemma find_thumbnail_find:
  "find_thumbnail fs stem exts cfg =
     (case List.find (\<lambda>ext. exists_root fs (stem @ ext)) exts of
        None \<Rightarrow> cfg
      | Some ext \<Rightarrow> cfg(KStr ''file'' \<mapsto> PathRef [root, stem @ ext]))"
  by (induction exts) auto

lemma find_SomeD: "List.find P xs = Some x \<Longrightarrow> x \<in> set xs \<and> P x"
  by (induction xs) (auto split: if_splits)

lemma find_unique:
  assumes "set xs = set ys" and "\<forall>a\<in>set xs. \<forall>b\<in>set xs. P a \<and> P b \<longrightarrow> a = b"
  shows "List.find P xs = List.find P ys"
proof (cases "List.find P xs")
  case None
  then have "\<not> (\<exists>x. x \<in> set ys \<and> P x)" using assms(1) by (simp add: find_None_iff)
  then have "List.find P ys = None" by (simp add: find_None_iff)
  with None show ?thesis by simp
next
  case (Some a)
  from find_SomeD[OF Some] have a: "a \<in> set xs" "P a" by simp_all
  then have "\<exists>x. x \<in> set ys \<and> P x" using assms(1) by auto
  then obtain b where b: "List.find P ys = Some b"
    by (cases "List.find P ys") (auto simp: find_None_iff)
  from find_SomeD[OF b] assms(1) have "b \<in> set xs" "P b" by simp_all
  with a assms(2) have "a = b" by blast
  with Some b show ?thesis by simp
qed

lemma sticker_defaults_cong:
  "capitalize rt1 = capitalize rt2 \<Longrightarrow> str_of rt1 = str_of rt2 \<Longrightarrow>
     sticker_defaults rt1 = sticker_defaults rt2"
  by (intro ext) (auto simp: sticker_defaults_def snake_to_camel_def format_value_def
      split: pyval.splits json.splits)

lemma collect_cong:
  assumes "capitalize rt1 = capitalize rt2" "str_of rt1 = str_of rt2"
  shows "collect rt1 fs cat prefix es d = collect rt2 fs cat prefix es d"
proof (induction es arbitrary: d)
  case Nil
  then show ?case by simp
next
  case (Cons e es)
  have "collect_entry rt1 fs cat prefix e d = collect_entry rt2 fs cat prefix e d"
    unfolding collect_entry_def sticker_defaults_cong[OF assms] ..
  with Cons.IH show ?case by (simp split: sum.splits)
qed

lemma walk_directory_cong:
  assumes "capitalize rt1 = capitalize rt2" "str_of rt1 = str_of rt2"
    and "iterates (suffix_iter rt1) IMAGE_SUFFIXES" "iterates (suffix_iter rt2) IMAGE_SUFFIXES"
    and "one_thumbnail fs (r_stem cat)"
  shows "walk_directory rt1 fs cat st = walk_directory rt2 fs cat st"
proof -
  have sets: "set (suffix_iter rt1) = set (suffix_iter rt2)"
    using assms(3,4) by (simp add: iterates_def)
  have "\<forall>a\<in>set (suffix_iter rt1). \<forall>b\<in>set (suffix_iter rt1).
      exists_root fs (r_stem cat @ a) \<and> exists_root fs (r_stem cat @ b) \<longrightarrow> a = b"
    using assms(3,5) by (simp add: iterates_def one_thumbnail_def)
  from find_unique[OF sets this]
  have thumb: "\<And>cfg. find_thumbnail fs (r_stem cat) (suffix_iter rt1) cfg
      = find_thumbnail fs (r_stem cat) (suffix_iter rt2) cfg"
    by (simp add: find_thumbnail_find)
  have dflt: "category_defaults rt1 (r_stem cat) = category_defaults rt2 (r_stem cat)"
    using assms(1) by (simp add: category_defaults_def snake_to_camel_def snake_to_title_def)
  have wc: "\<And>prefix s. walk_category rt1 fs cat prefix s = walk_category rt2 fs cat prefix s"
    by (simp add: walk_category_def collect_cong[OF assms(1,2)])
  show ?thesis
    unfolding walk_directory_def thumb dflt wc ..
qed

lemma walk_entries_cong:
  assumes "capitalize rt1 = capitalize rt2" "str_of rt1 = str_of rt2"
    and "iterates (suffix_iter rt1) IMAGE_SUFFIXES" "iterates (suffix_iter rt2) IMAGE_SUFFIXES"
  shows "\<forall>cat\<in>set cats. r_is_dir cat \<longrightarrow> one_thumbnail fs (r_stem cat) \<Longrightarrow>
     walk_entries rt1 fs cats st = walk_entries rt2 fs cats st"
proof (induction cats arbitrary: st)
  case Nil
  then show ?case by simp
next
  case (Cons cat cats)
  show ?case
  proof (cases "r_is_dir cat")
    case False
    with Cons show ?thesis by simp
  next
    case True
    with Cons.prems have "one_thumbnail fs (r_stem cat)" by simp
    from walk_directory_cong[OF assms this]
    have "walk_directory rt1 fs cat st = walk_directory rt2 fs cat st" .
    with Cons True show ?thesis
      by (auto split: prod.splits option.splits)
  qed
qed

text \<open>
  C6, as the code has it. The thumbnail of a category is the first match in the order
  in which the running interpreter iterates the set \<^verbatim>\<open>IMAGE_SUFFIXES\<close>. Two builds of one
  snapshot (its directories enumerated in the same order) by runtimes that differ only
  in that iteration order give the same state and outcome whenever no category has
  more than one thumbnail candidate.
\<close>

theorem build_independent_of_suffix_order:
  assumes "capitalize rt1 = capitalize rt2" "str_of rt1 = str_of rt2"
    and "iterates (suffix_iter rt1) IMAGE_SUFFIXES" "iterates (suffix_iter rt2) IMAGE_SUFFIXES"
    and "\<forall>cat\<in>set (iterdir_root fs). r_is_dir cat \<longrightarrow> one_thumbnail fs (r_stem cat)"
  shows "walk_root rt1 fs before = walk_root rt2 fs before
     \<and> find_thumbnail fs stem (suffix_iter rt1) cfg =
         (case List.find (\<lambda>ext. exists_root fs (stem @ ext)) (suffix_iter rt1) of
            None \<Rightarrow> cfg
          | Some ext \<Rightarrow> cfg(KStr ''file'' \<mapsto> PathRef [root, stem @ ext]))"
  using walk_entries_cong[OF assms(1-4), of "iterdir_root fs" fs] assms(5)
  by (simp add: walk_root_def find_thumbnail_find)

theorem build_independent_of_suffix_order_witness:
  "iterates gif_first IMAGE_SUFFIXES \<and> iterates png_first IMAGE_SUFFIXES
   \<and> walk_root (ascii_runtime gif_first) (thumbs [''cat.png'']) []
       = walk_root (ascii_runtime png_first) (thumbs [''cat.png'']) []"
proof -
  have gif: "iterates (suffix_iter (ascii_runtime gif_first)) IMAGE_SUFFIXES"
    by (auto simp: iterates_def gif_first_def IMAGE_SUFFIXES_def ascii_runtime_def)
  have png: "iterates (suffix_iter (ascii_runtime png_first)) IMAGE_SUFFIXES"
    by (auto simp: iterates_def png_first_def IMAGE_SUFFIXES_def ascii_runtime_def)
  have cap: "capitalize (ascii_runtime gif_first) = capitalize (ascii_runtime png_first)"
    and str: "str_of (ascii_runtime gif_first) = str_of (ascii_runtime png_first)"
    by (simp_all add: ascii_runtime_def)
  have one: "\<forall>cat\<in>set (iterdir_root (thumbs [''cat.png''])).
      r_is_dir cat \<longrightarrow> one_thumbnail (thumbs [''cat.png'']) (r_stem cat)"
    by (simp add: thumbs_def dir_entry_def one_thumbnail_def IMAGE_SUFFIXES_def)
  from build_independent_of_suffix_order[OF cap str gif png one, of "[]"]
  have "walk_root (ascii_runtime gif_first) (thumbs [''cat.png'']) []
       = walk_root (ascii_runtime png_first) (thumbs [''cat.png'']) []"
    by blast
  with gif png show ?thesis by (simp add: ascii_runtime_def)
qed

text \<open>
  With both \<^verbatim>\<open>cat.gif\<close> and \<^verbatim>\<open>cat.png\<close> in the root, two iteration orders of the same
  set give two different builds of the same snapshot.
\<close>

theorem thumbnail_order_counterexample:
  "iterates gif_first IMAGE_SUFFIXES \<and> iterates png_first IMAGE_SUFFIXES
   \<and> walk_root (ascii_runtime gif_first) (thumbs [''cat.gif'', ''cat.png'']) []
       \<noteq> walk_root (ascii_runtime png_first) (thumbs [''cat.gif'', ''cat.png'']) []"
proof -
  have "iterates gif_first IMAGE_SUFFIXES"
    by (auto simp: iterates_def gif_first_def IMAGE_SUFFIXES_def)
  moreover have "iterates png_first IMAGE_SUFFIXES"
    by (auto simp: iterates_def png_first_def IMAGE_SUFFIXES_def)
  moreover have "walk_root (ascii_runtime gif_first) (thumbs [''cat.gif'', ''cat.png'']) []
       \<noteq> walk_root (ascii_runtime png_first) (thumbs [''cat.gif'', ''cat.png'']) []"
    by (simp add: thumbs_def gif_first_def png_first_def example_defs)
  ultimately show ?thesis by simp
qed

end
